theory Spec2Isabelle
  imports Main "HOL-Library.Product_Lexorder" "HOL-Library.Log_Nat" "HOL-Library.Multiset"
begin

section \<open>Data model\<close>

text \<open>
  The two tables of the migration (\<^verbatim>\<open>CREATE TABLE "links"\<close>, \<^verbatim>\<open>CREATE TABLE "clicks"\<close>).

  A \<^verbatim>\<open>TIMESTAMP(3)\<close> value is kept as the calendar instant it denotes, in UTC:
  (year, month 1..12, day of month, millisecond of the day). The lexicographic order of
  these tuples is the chronological order. Prisma hands such a column to JavaScript as a
  \<^verbatim>\<open>Date\<close> of the same UTC instant.

  A \<^verbatim>\<open>DECIMAL(10,2)\<close> value, and a \<^verbatim>\<open>Prisma.Decimal\<close> holding one or a sum of them,
  is an integer number of hundredths: 0.05 is 5, 1.00 is 100. Sums of such values are exact.

  The \<^verbatim>\<open>SERIAL\<close> keys are natural numbers.
\<close>

type_synonym timestamp = "int \<times> nat \<times> nat \<times> nat"

type_synonym Decimal = int

record link =
  id_link :: nat
  shortCode :: string
  targetUrl :: string
  createdAt :: timestamp

record click =
  id_click :: nat
  linkId :: nat
  isValid :: bool
  earnedCredit :: Decimal
  clickedAt :: timestamp

record store =
  links :: "link list"
  clicks :: "click list"
  links_id_seq :: nat
  clicks_id_seq :: nat

text \<open>
  What the service can be thrown: a \<^verbatim>\<open>Prisma.PrismaClientKnownRequestError\<close> with its
  \<^verbatim>\<open>code\<close> and \<^verbatim>\<open>meta.target\<close> (absent, or an array of column names), any other failure of
  a collaborator, Nest's \<^verbatim>\<open>NotFoundException\<close>, and a plain \<^verbatim>\<open>Error\<close>.
\<close>

datatype error =
    PrismaClientKnownRequestError string "string list option"
  | OtherFailure string
  | NotFoundException string
  | Error string

section \<open>The entity store\<close>

text \<open>
  Modelled from the spec: the persistence engine (PostgreSQL behind the Prisma client) is
  not code of this repository; the operations below follow the store contract of the
  specification (lookup by unique key, insert with conflict detection that tells which
  key conflicted, count, paginated scan, insert of a click, aggregate, grouping by month)
  and the constraints of the migration: \<^verbatim>\<open>links_short_code_key\<close> and
  \<^verbatim>\<open>links_target_url_key\<close> are unique indexes, checked in the order of their creation,
  and a violation is reported as error code P2002 with the column of the violated index.
  A key is drawn from the table's sequence before the constraints are checked.
\<close>

definition findLinkByTargetUrl :: "store \<Rightarrow> string \<Rightarrow> link option" where
  "findLinkByTargetUrl s url = find (\<lambda>l. targetUrl l = url) (links s)"

definition findLinkByShortCode :: "store \<Rightarrow> string \<Rightarrow> link option" where
  "findLinkByShortCode s code = find (\<lambda>l. shortCode l = code) (links s)"

definition insertLink :: "store \<Rightarrow> timestamp \<Rightarrow> string \<Rightarrow> string \<Rightarrow> (error + link) \<times> store" where
  "insertLink s t code url =
     (let i = Suc (links_id_seq s);
          s' = s\<lparr>links_id_seq := i\<rparr>
      in if \<exists>l \<in> set (links s). shortCode l = code
         then (Inl (PrismaClientKnownRequestError ''P2002'' (Some [''short_code''])), s')
         else if \<exists>l \<in> set (links s). targetUrl l = url
         then (Inl (PrismaClientKnownRequestError ''P2002'' (Some [''target_url''])), s')
         else (let l = \<lparr>id_link = i, shortCode = code, targetUrl = url, createdAt = t\<rparr>
               in (Inr l, s'\<lparr>links := links s' @ [l]\<rparr>)))"

definition countLinks :: "store \<Rightarrow> nat" where
  "countLinks s = length (links s)"

definition listLinks :: "store \<Rightarrow> nat \<Rightarrow> nat \<Rightarrow> link list" where
  \<comment> \<open>\<^verbatim>\<open>ORDER BY created_at DESC OFFSET skip LIMIT take\<close>; rows of equal creation time
      come in a fixed order, the later insert first.\<close>
  "listLinks s skip tk = take tk (drop skip (rev (sort_key createdAt (links s))))"

definition insertClick :: "store \<Rightarrow> timestamp \<Rightarrow> nat \<Rightarrow> bool \<Rightarrow> Decimal \<Rightarrow> click \<times> store" where
  "insertClick s t lid v credit =
     (let i = Suc (clicks_id_seq s);
          c = \<lparr>id_click = i, linkId = lid, isValid = v, earnedCredit = credit, clickedAt = t\<rparr>
      in (c, s\<lparr>clicks_id_seq := i, clicks := clicks s @ [c]\<rparr>))"

definition clicksOf :: "store \<Rightarrow> nat \<Rightarrow> click list" where
  \<comment> \<open>\<^verbatim>\<open>WHERE link_id = ...\<close>\<close>
  "clicksOf s lid = filter (\<lambda>c. linkId c = lid) (clicks s)"

definition aggregateClicks :: "store \<Rightarrow> nat \<Rightarrow> nat \<times> Decimal option" where
  \<comment> \<open>\<^verbatim>\<open>_count: true, _sum: { earnedCredit: true }\<close>; the sum over no rows is null.\<close>
  "aggregateClicks s lid =
     (let cs = clicksOf s lid
      in (length cs, if cs = [] then None else Some (sum_list (map earnedCredit cs))))"

definition date_trunc_month :: "timestamp \<Rightarrow> timestamp" where
  "date_trunc_month t = (case t of (y, m, d, ms) \<Rightarrow> (y, m, 1, 0))"

definition groupClicksByMonth :: "store \<Rightarrow> nat \<Rightarrow> (timestamp \<times> nat \<times> Decimal) list" where
  \<comment> \<open>\<^verbatim>\<open>SELECT DATE_TRUNC('month', clicked_at), COUNT(*), COALESCE(SUM(earned_credit), 0)
      ... GROUP BY DATE_TRUNC('month', clicked_at) ORDER BY month ASC\<close>\<close>
  "groupClicksByMonth s lid =
     (let cs = clicksOf s lid;
          months = sort (remdups (map (\<lambda>c. date_trunc_month (clickedAt c)) cs))
      in map (\<lambda>m. let g = filter (\<lambda>c. date_trunc_month (clickedAt c) = m) cs
                   in (m, length g, sum_list (map earnedCredit g))) months)"

section \<open>The world the service runs in\<close>

text \<open>
  The service is handed its collaborators by injection (\<^verbatim>\<open>PrismaService\<close>,
  \<^verbatim>\<open>FraudService\<close>) and calls \<^verbatim>\<open>nanoid\<close>, \<^verbatim>\<open>Math.random\<close> and a \<^verbatim>\<open>Logger\<close>. The state
  threaded through a call holds
  \<^item> the store and the clock its \<^verbatim>\<open>CURRENT_TIMESTAMP\<close> reads;
  \<^item> the values \<^verbatim>\<open>nanoid(8)\<close> and \<^verbatim>\<open>Math.random()\<close> return, call after call;
  \<^item> what happens around this call at each round trip to the store: inserts of
    concurrent requests that commit just before it, and a failure of the round trip;
  \<^item> the trace of every call made to a collaborator, to the logger and to the HTTP
    response, in the order made.
\<close>

datatype level = LOG | WARN | ERROR

datatype event =
    LinkFindUniqueByTargetUrl string
  | LinkFindUniqueByShortCode string
  | LinkCreate string string
  | ClickCreate nat bool Decimal
  | FraudValidate
  | Logged string level string
  | ResRedirect nat string

datatype env_action =
    ConcurrentCreate string string
  | Failure error

record world =
  db :: store
  now :: timestamp
  nanoid_src :: "nat \<Rightarrow> string"
  nanoid_calls :: nat
  random_src :: "nat \<Rightarrow> rat"
  random_calls :: nat
  env :: "env_action list list"
  trace :: "event list"

definition emit :: "event \<Rightarrow> world \<Rightarrow> world" where
  "emit e w = w\<lparr>trace := trace w @ [e]\<rparr>"

definition logger :: "string \<Rightarrow> level \<Rightarrow> string \<Rightarrow> world \<Rightarrow> world" where
  "logger ctx lv msg w = emit (Logged ctx lv msg) w"

fun concurrent :: "timestamp \<Rightarrow> env_action \<Rightarrow> store \<Rightarrow> store" where
  "concurrent t (ConcurrentCreate code url) s = snd (insertLink s t code url)"
| "concurrent t (Failure e) s = s"

fun failure_of :: "env_action list \<Rightarrow> error option" where
  "failure_of [] = None"
| "failure_of (Failure e # as) = Some e"
| "failure_of (ConcurrentCreate code url # as) = failure_of as"

definition round_trip :: "world \<Rightarrow> error option \<times> world" where
  \<comment> \<open>One round trip to the store: what the environment does first, and whether the
      round trip fails.\<close>
  "round_trip w =
     (case env w of
        [] \<Rightarrow> (None, w)
      | acts # rest \<Rightarrow> (failure_of acts, w\<lparr>db := fold (concurrent (now w)) acts (db w), env := rest\<rparr>))"

definition prisma_link_findUnique_targetUrl :: "string \<Rightarrow> world \<Rightarrow> (error + link option) \<times> world" where
  "prisma_link_findUnique_targetUrl url w =
     (let (f, w1) = round_trip (emit (LinkFindUniqueByTargetUrl url) w)
      in case f of
           Some e \<Rightarrow> (Inl e, w1)
         | None \<Rightarrow> (Inr (findLinkByTargetUrl (db w1) url), w1))"

definition prisma_link_findUnique_shortCode :: "string \<Rightarrow> world \<Rightarrow> (error + link option) \<times> world" where
  "prisma_link_findUnique_shortCode code w =
     (let (f, w1) = round_trip (emit (LinkFindUniqueByShortCode code) w)
      in case f of
           Some e \<Rightarrow> (Inl e, w1)
         | None \<Rightarrow> (Inr (findLinkByShortCode (db w1) code), w1))"

definition prisma_link_create :: "string \<Rightarrow> string \<Rightarrow> world \<Rightarrow> (error + link) \<times> world" where
  "prisma_link_create code url w =
     (let (f, w1) = round_trip (emit (LinkCreate code url) w)
      in case f of
           Some e \<Rightarrow> (Inl e, w1)
         | None \<Rightarrow> (let (r, s) = insertLink (db w1) (now w1) code url in (r, w1\<lparr>db := s\<rparr>)))"

definition prisma_click_create :: "nat \<Rightarrow> bool \<Rightarrow> Decimal \<Rightarrow> world \<Rightarrow> (error + click) \<times> world" where
  "prisma_click_create lid v credit w =
     (let (f, w1) = round_trip (emit (ClickCreate lid v credit) w)
      in case f of
           Some e \<Rightarrow> (Inl e, w1)
         | None \<Rightarrow> (let (c, s) = insertClick (db w1) (now w1) lid v credit in (Inr c, w1\<lparr>db := s\<rparr>)))"

definition nanoid :: "world \<Rightarrow> string \<times> world" where
  \<comment> \<open>\<^verbatim>\<open>nanoid(8)\<close>\<close>
  "nanoid w = (nanoid_src w (nanoid_calls w), w\<lparr>nanoid_calls := Suc (nanoid_calls w)\<rparr>)"

definition Math_random :: "world \<Rightarrow> rat \<times> world" where
  "Math_random w = (random_src w (random_calls w), w\<lparr>random_calls := Suc (random_calls w)\<rparr>)"

section \<open>Strings\<close>

fun digits :: "nat \<Rightarrow> string" where
  "digits n = (if n < 10 then [''0123456789'' ! n] else digits (n div 10) @ [''0123456789'' ! (n mod 10)])"

declare digits.simps [simp del]

definition String_of_int :: "int \<Rightarrow> string" where
  \<comment> \<open>an integer in a template literal\<close>
  "String_of_int i = (if i < 0 then ''-'' @ digits (nat (- i)) else digits (nat i))"

definition String_of_bool :: "bool \<Rightarrow> string" where
  "String_of_bool b = (if b then ''true'' else ''false'')"

definition padStart2 :: "string \<Rightarrow> string" where
  \<comment> \<open>\<^verbatim>\<open>.padStart(2, '0')\<close>\<close>
  "padStart2 s = replicate (2 - length s) CHR ''0'' @ s"

definition Decimal_toString :: "Decimal \<Rightarrow> string" where
  \<comment> \<open>A \<^verbatim>\<open>Decimal\<close> in a template literal: normalised, without trailing zeros
      (\<^verbatim>\<open>new Decimal('0.00')\<close> prints as \<^verbatim>\<open>0\<close>). Values from 10^21 on print in
      exponential notation and are outside this function.\<close>
  "Decimal_toString c =
     (let a = nat \<bar>c\<bar>; f = a mod 100
      in (if c < 0 then ''-'' else []) @ digits (a div 100) @
         (if f = 0 then []
          else ''.'' @ (if f mod 10 = 0 then digits (f div 10) else padStart2 (digits f))))"

section \<open>JavaScript numbers\<close>

text \<open>
  A JavaScript number is an IEEE 754 double. A finite double is kept as the rational it
  denotes, and an operation on numbers is the exact operation followed by the rounding
  to the nearest double (ties to the even significand). \<open>to_double\<close> rounds to a 53-bit
  significand; it is that rounding for magnitudes in the normal range of doubles and for
  zero. \<^verbatim>\<open>Number(d)\<close> of a \<^verbatim>\<open>Decimal\<close> is the double nearest to the value of \<open>d\<close>.
\<close>

fun bit_length :: "nat \<Rightarrow> nat" where
  "bit_length n = (if n = 0 then 0 else Suc (bit_length (n div 2)))"

declare bit_length.simps [simp del]

definition ilog2 :: "rat \<Rightarrow> int" where
  \<comment> \<open>for \<open>x > 0\<close>, the exponent \<open>e\<close> with \<open>2^e \<le> x < 2^(e+1)\<close>\<close>
  "ilog2 x =
     (let (n, d) = quotient_of x;
          e = int (bit_length (nat n)) - int (bit_length (nat d))
      in if 2 powi e \<le> x then e else e - 1)"

definition round_half_even :: "rat \<Rightarrow> int" where
  "round_half_even m =
     (let f = \<lfloor>m\<rfloor>; r = m - of_int f
      in if r < 1 / 2 then f
         else if 1 / 2 < r then f + 1
         else if even f then f else f + 1)"

definition to_double :: "rat \<Rightarrow> rat" where
  "to_double x =
     (if x = 0 then 0
      else (let q = ilog2 \<bar>x\<bar> - 52
            in sgn x * of_int (round_half_even (\<bar>x\<bar> / 2 powi q)) * 2 powi q))"

definition is_Number :: "int \<Rightarrow> bool" where
  \<comment> \<open>an integer that is a JavaScript number: a finite double has that value\<close>
  "is_Number k = (\<bar>k\<bar> < 2 ^ 1024 \<and> to_double (of_int k) = of_int k)"

definition Number_of_Decimal :: "Decimal \<Rightarrow> rat" where
  \<comment> \<open>\<^verbatim>\<open>Number(d)\<close> for a decimal of \<open>c\<close> hundredths\<close>
  "Number_of_Decimal c = to_double (of_int c / 100)"

definition toFixed2 :: "rat \<Rightarrow> string option" where
  \<comment> \<open>\<^verbatim>\<open>x.toFixed(2)\<close> (ECMAScript, Number.prototype.toFixed): the sign, then the integer
      \<open>n\<close> for which \<open>n / 100\<close> is nearest to the magnitude, the larger one of two, written
      with two digits after the point. \<open>None\<close> stands for the strings of magnitudes
      from 10^21 on, which are in exponential notation and not spelled out here.\<close>
  "toFixed2 x =
     (if 10 ^ 21 \<le> \<bar>x\<bar> then None
      else (let n = nat \<lfloor>\<bar>x\<bar> * 100 + 1 / 2\<rfloor>
            in Some ((if x < 0 then ''-'' else []) @ digits (n div 100) @ ''.'' @
                     padStart2 (digits (n mod 100)))))"

definition or_zero :: "rat \<Rightarrow> rat" where
  \<comment> \<open>\<^verbatim>\<open>x || 0\<close>: a number is falsy when it is zero\<close>
  "or_zero x = (if x = 0 then 0 else x)"

definition decimal_fixed2 :: "Decimal \<Rightarrow> string" where
  \<comment> \<open>the exact value of a decimal of \<open>c\<close> hundredths, written with two digits after the
      point: what the specification asks of an amount\<close>
  "decimal_fixed2 c =
     (if c < 0 then ''-'' else []) @ digits (nat \<bar>c\<bar> div 100) @ ''.'' @
     padStart2 (digits (nat \<bar>c\<bar> mod 100))"

section \<open>FraudService\<close>

definition FraudService_validate :: "world \<Rightarrow> bool \<times> world" where
  "FraudService_validate w =
     (let w1 = emit FraudValidate w;
          (r, w2) = Math_random w1;
          v = (r < 1 / 2)
      in (v, logger ''FraudService'' LOG
                (''Fraud validation result: '' @ (if v then ''valid'' else ''invalid'')) w2))"

section \<open>LinksService\<close>

record created =
  code_of :: string
  url_of :: string
  isNew :: bool

definition maxRetries :: nat where
  "maxRetries = 3"

definition is_P2002 :: "error \<Rightarrow> bool" where
  \<comment> \<open>\<^verbatim>\<open>error instanceof Prisma.PrismaClientKnownRequestError && error.code === 'P2002'\<close>\<close>
  "is_P2002 e = (case e of PrismaClientKnownRequestError c t \<Rightarrow> c = ''P2002'' | _ \<Rightarrow> False)"

definition target_includes :: "error \<Rightarrow> string \<Rightarrow> bool" where
  \<comment> \<open>\<^verbatim>\<open>Array.isArray(target) && target.includes(col)\<close> for \<^verbatim>\<open>target = error.meta?.target\<close>\<close>
  "target_includes e col =
     (case e of PrismaClientKnownRequestError c (Some t) \<Rightarrow> col \<in> set t | _ \<Rightarrow> False)"

text \<open>
  The body of the \<^verbatim>\<open>for\<close> loop of \<^verbatim>\<open>createLink\<close>, attempt by attempt. \<^verbatim>\<open>collided\<close> is the
  tail of the \<^verbatim>\<open>catch\<close> block for a P2002 error that did not end in a re-read link:
  the warning, then the rethrow on the last attempt or \<^verbatim>\<open>continue\<close>.
\<close>

function createLink_loop :: "nat \<Rightarrow> string \<Rightarrow> world \<Rightarrow> (error + created) \<times> world" where
  "createLink_loop attempt url w =
     (if attempt < maxRetries then
        (let (code, w1) = nanoid w;
             (r, w2) = prisma_link_create code url w1
         in case r of
              Inr l \<Rightarrow>
                (Inr \<lparr>code_of = shortCode l, url_of = targetUrl l, isNew = True\<rparr>,
                 logger ''LinksService'' LOG
                   (''New link created: '' @ shortCode l @ '' -> '' @ url) w2)
            | Inl err \<Rightarrow>
                if is_P2002 err then
                  (let (found, w3) =
                         (if target_includes err ''target_url''
                          then prisma_link_findUnique_targetUrl url w2
                          else (Inr None, w2))
                   in case found of
                        Inl err' \<Rightarrow> (Inl err', w3)
                      | Inr (Some existing) \<Rightarrow>
                          (Inr \<lparr>code_of = shortCode existing, url_of = targetUrl existing, isNew = False\<rparr>,
                           logger ''LinksService'' LOG
                             (''Existing link found (race condition) for URL: '' @ url @ '' -> '' @
                              shortCode existing) w3)
                      | Inr None \<Rightarrow>
                          (let w4 = logger ''LinksService'' WARN
                                      (''Short code collision on attempt '' @ digits (attempt + 1) @
                                       ''/'' @ digits maxRetries) w3
                           in if attempt = maxRetries - 1 then (Inl err, w4)
                              else createLink_loop (attempt + 1) url w4))
                else (Inl err, w2))
      else (Inl (Error ''Failed to generate unique short code after retries''), w))"
  by pat_completeness auto
termination
proof (relation "measure (\<lambda>(attempt, url, w). maxRetries - attempt)")
  show "wf (measure (\<lambda>(attempt, url, w). maxRetries - attempt))"
    by (rule wf_measure)
next
  fix attempt :: nat and url :: string and w4 w :: world
  assume "attempt < maxRetries"
  then show "((attempt + 1, url, w4), (attempt, url, w)) \<in> measure (\<lambda>(attempt, url, w). maxRetries - attempt)"
    by simp
qed

declare createLink_loop.simps [simp del]

definition createLink :: "string \<Rightarrow> world \<Rightarrow> (error + created) \<times> world" where
  "createLink url w =
     (let (r, w1) = prisma_link_findUnique_targetUrl url w
      in case r of
           Inl err \<Rightarrow> (Inl err, w1)
         | Inr (Some existing) \<Rightarrow>
             (Inr \<lparr>code_of = shortCode existing, url_of = targetUrl existing, isNew = False\<rparr>,
              logger ''LinksService'' LOG
                (''Existing link found for URL: '' @ url @ '' -> '' @ shortCode existing) w1)
         | Inr None \<Rightarrow> createLink_loop 0 url w1)"

definition resolve :: "string \<Rightarrow> world \<Rightarrow> (error + string) \<times> world" where
  "resolve code w =
     (let (r, w1) = prisma_link_findUnique_shortCode code w
      in case r of
           Inl err \<Rightarrow> (Inl err, w1)
         | Inr None \<Rightarrow>
             (Inl (NotFoundException ''Short link not found''),
              logger ''LinksService'' WARN (''Short code not found: '' @ code) w1)
         | Inr (Some l) \<Rightarrow>
             (Inr (targetUrl l),
              logger ''LinksService'' LOG (''Resolved '' @ code @ '' -> '' @ targetUrl l) w1))"

definition em_dash :: string where
  \<comment> \<open>U+2014, in UTF-8\<close>
  "em_dash = [CHR 0xE2, CHR 0x80, CHR 0x94]"

definition Decimal_0_05 :: Decimal where
  \<comment> \<open>\<^verbatim>\<open>new Prisma.Decimal('0.05')\<close>\<close>
  "Decimal_0_05 = 5"

definition Decimal_0_00 :: Decimal where
  \<comment> \<open>\<^verbatim>\<open>new Prisma.Decimal('0.00')\<close>\<close>
  "Decimal_0_00 = 0"

definition recordClick :: "string \<Rightarrow> world \<Rightarrow> (error + unit) \<times> world" where
  "recordClick code w =
     (let (r, w1) = prisma_link_findUnique_shortCode code w
      in case r of
           Inl err \<Rightarrow> (Inl err, w1)
         | Inr None \<Rightarrow>
             (Inr (),
              logger ''LinksService'' WARN
                (''Click recording skipped '' @ em_dash @ '' link not found: '' @ code) w1)
         | Inr (Some l) \<Rightarrow>
             (let (v, w2) = FraudService_validate w1;
                  credit = (if v then Decimal_0_05 else Decimal_0_00);
                  (c, w3) = prisma_click_create (id_link l) v credit w2
              in case c of
                   Inl err \<Rightarrow> (Inl err, w3)
                 | Inr _ \<Rightarrow>
                     (Inr (),
                      logger ''LinksService'' LOG
                        (''Click recorded for '' @ code @ '': valid='' @ String_of_bool v @
                         '', earned='' @ Decimal_toString credit) w3)))"

section \<open>LinksService.getStats\<close>

record MonthlyBreakdown =
  month :: string
  clicks_mb :: nat
  earnings :: "string option"

record LinkStatsItem =
  shortCode_item :: string
  url_item :: string
  totalClicks :: nat
  totalEarnings :: "string option"
  monthlyBreakdown :: "MonthlyBreakdown list"

record PaginationMeta =
  page :: int
  limit :: int
  totalItems :: int
  totalPages :: int

record LinkStatsResponse =
  data :: "LinkStatsItem list"
  meta :: PaginationMeta

definition getUTCMonth :: "timestamp \<Rightarrow> int" where
  "getUTCMonth t = (case t of (y, m, d, ms) \<Rightarrow> int m - 1)"

definition getUTCFullYear :: "timestamp \<Rightarrow> int" where
  "getUTCFullYear t = (case t of (y, m, d, ms) \<Rightarrow> y)"

text \<open>
  The items of a page. A count of a link's clicks reaches the service as a number
  (\<^verbatim>\<open>aggregation._count\<close>, \<^verbatim>\<open>Number(row.clicks)\<close>); it is kept as the natural number it is,
  which a number holds exactly below 2^53, and the \<^verbatim>\<open>clicks\<close> table, keyed by a \<^verbatim>\<open>SERIAL\<close>,
  has fewer than 2^31 rows. An amount is a \<^verbatim>\<open>Decimal\<close> that the service converts to a
  number before it formats it.
\<close>

definition breakdown_row :: "timestamp \<times> nat \<times> Decimal \<Rightarrow> MonthlyBreakdown" where
  \<comment> \<open>the function mapped over \<^verbatim>\<open>monthlyRaw\<close>\<close>
  "breakdown_row row =
     (case row of (date, n, amount) \<Rightarrow>
        (let mm = padStart2 (String_of_int (getUTCMonth date + 1));
             yyyy = getUTCFullYear date
         in \<lparr>month = mm @ ''/'' @ String_of_int yyyy,
             clicks_mb = n,
             earnings = toFixed2 (Number_of_Decimal amount)\<rparr>))"

definition stats_item :: "store \<Rightarrow> link \<Rightarrow> LinkStatsItem" where
  \<comment> \<open>the function mapped over \<^verbatim>\<open>links\<close>\<close>
  "stats_item s l =
     (let (cnt, amount) = aggregateClicks s (id_link l);
          monthlyRaw = groupClicksByMonth s (id_link l)
      in \<lparr>shortCode_item = shortCode l,
          url_item = targetUrl l,
          totalClicks = cnt,
          totalEarnings =
            toFixed2 (or_zero (case amount of None \<Rightarrow> 0 | Some c \<Rightarrow> Number_of_Decimal c)),
          monthlyBreakdown = map breakdown_row monthlyRaw\<rparr>)"

text \<open>
  Modelled from the spec: the persistence engine is not code of this repository. Of
  \<^verbatim>\<open>findMany\<close> the specification has \<open>listLinks(offset, limit, orderByCreatedAtDesc)\<close> and
  leaves the range of the offset open. The Prisma client hands \<^verbatim>\<open>skip\<close> and \<^verbatim>\<open>take\<close> to its
  query engine, which reads them as 64-bit signed integers: with a number that does not
  fit, the call throws. The error is none of those the service tells apart; its label
  here stands for the client's message. Below 2^53 the integer the engine reads is the
  number. From 2^53 on it is the decimal the client prints for the number, which may
  differ from the number in its last digits and is no less than 2^53; the listing is
  taken at the number here, and is the same listing in a store of fewer than 2^53 links.
\<close>

definition Int64_max :: int where
  "Int64_max = 2 ^ 63 - 1"

definition prisma_link_findMany :: "store \<Rightarrow> rat \<Rightarrow> int \<Rightarrow> error + link list" where
  \<comment> \<open>\<^verbatim>\<open>prisma.link.findMany({ skip, take, orderBy: { createdAt: 'desc' } })\<close> for whole
      numbers \<open>skip \<ge> 0\<close> and \<open>take \<ge> 1\<close>\<close>
  "prisma_link_findMany s sk tk =
     (if of_int Int64_max < sk \<or> Int64_max < tk
      then Inl (OtherFailure ''skip or take does not fit a 64-bit signed integer'')
      else Inr (listLinks s (nat \<lfloor>sk\<rfloor>) (nat tk)))"

definition prisma_link_count :: "store \<Rightarrow> rat" where
  \<comment> \<open>\<^verbatim>\<open>prisma.link.count()\<close>: the count, as a number\<close>
  "prisma_link_count s = to_double (of_nat (countLinks s))"

definition skip_of :: "int \<Rightarrow> int \<Rightarrow> rat" where
  \<comment> \<open>\<^verbatim>\<open>(page - 1) * limit\<close>, on numbers\<close>
  "skip_of p n = to_double (to_double (of_int p - 1) * of_int n)"

definition page_links :: "store \<Rightarrow> int \<Rightarrow> int \<Rightarrow> link list" where
  \<comment> \<open>\<^verbatim>\<open>links\<close>, when \<^verbatim>\<open>findMany\<close> returns: the links the store lists for the page\<close>
  "page_links s p n = listLinks s (nat \<lfloor>skip_of p n\<rfloor>) (nat n)"

text \<open>
  \<^verbatim>\<open>getStats\<close> only reads. It is a function of the state of the store that answers its
  queries, and it throws what \<^verbatim>\<open>findMany\<close> throws. Its arguments are numbers. Modelled
  from the spec: the controller's \<^verbatim>\<open>PaginationQueryDto\<close> admits integers \<open>page \<ge> 1\<close> and
  \<open>limit \<ge> 1\<close> only, and the service trusts its inputs. What Prisma does with a negative
  \<^verbatim>\<open>skip\<close> or \<^verbatim>\<open>take\<close>, with an offset that is \<^verbatim>\<open>Infinity\<close> (from \<open>2^1023\<close> on the product may
  be no finite double) and what a division by zero gives is outside this function, which
  says nothing (\<open>None\<close>) there, as for integers that are no numbers. The offset and the
  quotient \<^verbatim>\<open>totalItems / limit\<close> are rounded to doubles as JavaScript does.
\<close>

definition getStats :: "store \<Rightarrow> int \<Rightarrow> int \<Rightarrow> (error + LinkStatsResponse) option" where
  "getStats s p n =
     (if p < 1 \<or> n < 1 \<or> \<not> is_Number p \<or> \<not> is_Number n \<or> 2 ^ 1023 \<le> (p - 1) * n then None
      else Some
        (case prisma_link_findMany s (skip_of p n) n of
           Inl err \<Rightarrow> Inl err
         | Inr lks \<Rightarrow>
             (let total = prisma_link_count s
              in Inr \<lparr>data = map (stats_item s) lks,
                      meta = \<lparr>page = p, limit = n, totalItems = \<lfloor>total\<rfloor>,
                              totalPages = \<lceil>to_double (total / of_int n)\<rceil>\<rparr>\<rparr>)))"

definition month_key :: "click \<Rightarrow> timestamp" where
  \<comment> \<open>the calendar month (UTC) of a click, as the start of that month\<close>
  "month_key c = date_trunc_month (clickedAt c)"

definition label_MM_YYYY :: "nat \<Rightarrow> int \<Rightarrow> string" where
  \<comment> \<open>the label the specification asks for: two digits of the month, a slash, four
      digits of the year\<close>
  "label_MM_YYYY mo y =
     [''0123456789'' ! (mo div 10), ''0123456789'' ! (mo mod 10)] @ ''/'' @
     [''0123456789'' ! (nat y div 1000), ''0123456789'' ! (nat y div 100 mod 10),
      ''0123456789'' ! (nat y div 10 mod 10), ''0123456789'' ! (nat y mod 10)]"

section \<open>What the service writes\<close>


section \<open>LinksController.redirect\<close>

text \<open>
  The handler awaits \<^verbatim>\<open>resolve\<close>, sends the redirect, and calls \<^verbatim>\<open>recordClick\<close> without
  \<^verbatim>\<open>await\<close>, with a \<^verbatim>\<open>catch\<close> on the promise. A call of an async function runs the body
  up to its first \<^verbatim>\<open>await\<close> and returns a promise; the rest of the body runs later, when
  what it awaits is there. The first statement of \<^verbatim>\<open>recordClick\<close> awaits
  \<^verbatim>\<open>prisma.link.findUnique\<close>: the lookup is called when \<^verbatim>\<open>recordClick\<close> is called, inside
  the handler, and the round trip to the store with all that follows is the rest. That
  rest, under the \<^verbatim>\<open>catch\<close>, is work the handler leaves behind: the handler returns its
  outcome, the world as it leaves it, and the tasks it has started, which run after it.
  A task returns how its promise settles; \<open>Inl err\<close> is a rejection that nobody handles.
\<close>

definition HttpStatus_FOUND :: nat where
  "HttpStatus_FOUND = 302"

definition recordClick_called :: "string \<Rightarrow> world \<Rightarrow> world" where
  \<comment> \<open>\<^verbatim>\<open>recordClick(shortCode)\<close> up to its first \<^verbatim>\<open>await\<close>: the lookup is called\<close>
  "recordClick_called code w = emit (LinkFindUniqueByShortCode code) w"

definition recordClick_resumed :: "string \<Rightarrow> world \<Rightarrow> (error + unit) \<times> world" where
  \<comment> \<open>\<^verbatim>\<open>recordClick\<close> from its first \<^verbatim>\<open>await\<close> on: the round trip of the lookup, then the
      body as in \<open>recordClick\<close>\<close>
  "recordClick_resumed code w =
     (let (f, w1) = round_trip w
      in case f of
           Some err \<Rightarrow> (Inl err, w1)
         | None \<Rightarrow>
            (case findLinkByShortCode (db w1) code of
               None \<Rightarrow>
                 (Inr (),
                  logger ''LinksService'' WARN
                    (''Click recording skipped '' @ em_dash @ '' link not found: '' @ code) w1)
             | Some l \<Rightarrow>
                 (let (v, w2) = FraudService_validate w1;
                      credit = (if v then Decimal_0_05 else Decimal_0_00);
                      (c, w3) = prisma_click_create (id_link l) v credit w2
                  in case c of
                       Inl err \<Rightarrow> (Inl err, w3)
                     | Inr _ \<Rightarrow>
                         (Inr (),
                          logger ''LinksService'' LOG
                            (''Click recorded for '' @ code @ '': valid='' @ String_of_bool v @
                             '', earned='' @ Decimal_toString credit) w3))))"

type_synonym task = "world \<Rightarrow> (error + unit) \<times> world"

definition recordClick_detached :: "string \<Rightarrow> task" where
  \<comment> \<open>the promise of
      \<^verbatim>\<open>this.linksService.recordClick(shortCode).catch((err) => this.logger.error(...))\<close>,
      from the first \<^verbatim>\<open>await\<close> of \<^verbatim>\<open>recordClick\<close> on\<close>
  "recordClick_detached code w =
     (let (r, w1) = recordClick_resumed code w
      in case r of
           Inl err \<Rightarrow>
             (Inr (), logger ''LinksController'' ERROR (''Failed to record click for '' @ code) w1)
         | Inr u \<Rightarrow> (Inr (), w1))"

definition redirect :: "string \<Rightarrow> world \<Rightarrow> (error + unit) \<times> world \<times> task list" where
  "redirect code w =
     (let w0 = logger ''LinksController'' LOG (''Redirecting shortCode='' @ code) w;
          (r, w1) = resolve code w0
      in case r of
           Inl err \<Rightarrow> (Inl err, w1, [])
         | Inr target \<Rightarrow>
             (let w2 = emit (ResRedirect HttpStatus_FOUND target) w1;
                  w3 = recordClick_called code w2
              in (Inr (), w3, [recordClick_detached code])))"

fun run_tasks :: "task list \<Rightarrow> world \<Rightarrow> error list \<times> world" where
  \<comment> \<open>the tasks in the order started, with the rejections nobody handled\<close>
  "run_tasks [] w = ([], w)"
| "run_tasks (t # ts) w =
     (let (r, w1) = t w;
          (errs, w2) = run_tasks ts w1
      in ((case r of Inl err \<Rightarrow> [err] | Inr u \<Rightarrow> []) @ errs, w2))"

definition serve_redirect :: "string \<Rightarrow> world \<Rightarrow> (error + unit) \<times> error list \<times> world" where
  \<comment> \<open>the handler, then the tasks it left behind: the handler's outcome, the rejections
      nobody handled, and the world at the end\<close>
  "serve_redirect code w =
     (let (r, w1, ts) = redirect code w;
          (errs, w2) = run_tasks ts w1
      in (r, errs, w2))"

section \<open>Observing a call\<close>

text \<open>
  What the environment does at the next round trip, the store as that round trip finds
  it, and the events a call has added to the trace.
\<close>

definition next_acts :: "world \<Rightarrow> env_action list" where
  "next_acts w = (case env w of [] \<Rightarrow> [] | acts # rest \<Rightarrow> acts)"

definition after_env :: "world \<Rightarrow> store" where
  "after_env w = fold (concurrent (now w)) (next_acts w) (db w)"

definition events_since :: "world \<Rightarrow> world \<Rightarrow> event list" where
  "events_since w w' = drop (length (trace w)) (trace w')"

fun is_Logged :: "event \<Rightarrow> bool" where
  "is_Logged (Logged ctx lv msg) = True"
| "is_Logged e = False"

fun is_LinkCreate :: "event \<Rightarrow> bool" where
  "is_LinkCreate (LinkCreate code url) = True"
| "is_LinkCreate e = False"

definition calls :: "event list \<Rightarrow> event list" where
  \<comment> \<open>the calls to collaborators among the events, the log lines left out\<close>
  "calls es = filter (\<lambda>e. \<not> is_Logged e) es"

definition acts_at :: "world \<Rightarrow> nat \<Rightarrow> env_action list" where
  \<comment> \<open>what the environment does at the round trip after the next \<open>n\<close>\<close>
  "acts_at w n = (if n < length (env w) then env w ! n else [])"

fun is_ClickCreate :: "event \<Rightarrow> bool" where
  "is_ClickCreate (ClickCreate lid v credit) = True"
| "is_ClickCreate e = False"

text \<open>A world with no concurrent request and no store failure, after \<open>k\<close> collisions.\<close>

definition collided :: "world \<Rightarrow> event list \<Rightarrow> nat \<Rightarrow> world" where
  "collided w es k =
     w\<lparr>nanoid_calls := nanoid_calls w + k,
       db := (db w)\<lparr>links_id_seq := links_id_seq (db w) + k\<rparr>,
       trace := trace w @ es\<rparr>"

fun is_ResRedirect :: "event \<Rightarrow> bool" where
  "is_ResRedirect (ResRedirect status target) = True"
| "is_ResRedirect e = False"

fun is_recording :: "event \<Rightarrow> bool" where
  \<comment> \<open>the calls of the click recording that follow its lookup: the fraud validation and
      the insert of the click\<close>
  "is_recording FraudValidate = True"
| "is_recording (ClickCreate lid v credit) = True"
| "is_recording e = False"

section \<open>Example worlds\<close>

definition example_store :: store where
  "example_store =
     \<lparr>links = [\<lparr>id_link = 1, shortCode = ''abc12345'', targetUrl = ''https://fiverr.com/gig'',
                 createdAt = (2026, 1, 3, 0)\<rparr>],
      clicks = [], links_id_seq = 1, clicks_id_seq = 0\<rparr>"

definition example_world :: world where
  "example_world =
     \<lparr>db = example_store, now = (2026, 2, 1, 5),
      nanoid_src = (\<lambda>n. if n < 2 then ''abc12345'' else ''new12345''), nanoid_calls = 0,
      random_src = (\<lambda>n. if n = 0 then 1 / 4 else 3 / 4), random_calls = 0,
      env = [], trace = []\<rparr>"

definition example_world_invalid :: world where
  \<comment> \<open>the same world, with a fraud validator about to answer invalid\<close>
  "example_world_invalid = example_world\<lparr>random_calls := 1\<rparr>"

definition store_of_42 :: store where
  \<comment> \<open>42 links, created one a day\<close>
  "store_of_42 =
     \<lparr>links = map (\<lambda>i. \<lparr>id_link = i, shortCode = ''code00'' @ padStart2 (digits i),
                            targetUrl = ''https://fiverr.com/'' @ digits i,
                            createdAt = (2026, 1, i, 0)\<rparr>) [1..<43],
      clicks = [], links_id_seq = 42, clicks_id_seq = 0\<rparr>"

definition valid_click :: "nat \<Rightarrow> click" where
  \<comment> \<open>a valid click on link 1\<close>
  "valid_click i =
     \<lparr>id_click = i, linkId = 1, isValid = True, earnedCredit = 5, clickedAt = (2026, 2, 1, 0)\<rparr>"

definition store_with_clicks :: "nat \<Rightarrow> store" where
  \<comment> \<open>the example store after \<open>k\<close> valid clicks on its link\<close>
  "store_with_clicks k =
     example_store\<lparr>clicks := map valid_click [1..<Suc k], clicks_id_seq := k\<rparr>"

definition store_three_clicks :: store where
  \<comment> \<open>the example store with clicks on 2026-01-03, 2025-12-15 and 2025-12-28, in the
      order recorded, the second one invalid, and a click on another link\<close>
  "store_three_clicks =
     example_store\<lparr>clicks :=
       [\<lparr>id_click = 1, linkId = 1, isValid = True, earnedCredit = 5, clickedAt = (2026, 1, 3, 1000)\<rparr>,
        \<lparr>id_click = 2, linkId = 1, isValid = False, earnedCredit = 0, clickedAt = (2025, 12, 15, 43200000)\<rparr>,
        \<lparr>id_click = 3, linkId = 7, isValid = True, earnedCredit = 5, clickedAt = (2025, 11, 2, 0)\<rparr>,
        \<lparr>id_click = 4, linkId = 1, isValid = True, earnedCredit = 5, clickedAt = (2025, 12, 28, 86399999)\<rparr>],
       clicks_id_seq := 4\<rparr>"

definition example_world_colliding :: world where
  \<comment> \<open>the same world, with a generator that returns a code in use, call after call\<close>
  "example_world_colliding = example_world\<lparr>nanoid_src := (\<lambda>n. ''abc12345'')\<rparr>"

definition example_world_race :: world where
  \<comment> \<open>the same world, where another request inserts a link for the same target between
      this request's lookup and its insert\<close>
  "example_world_race =
     example_world\<lparr>nanoid_src := (\<lambda>n. ''new12345''),
                    env := [[], [ConcurrentCreate ''win12345'' ''https://fiverr.com/new'']]\<rparr>"

definition example_world_fresh :: world where
  \<comment> \<open>the same world, with a generator about to return a code that is not in use\<close>
  "example_world_fresh = example_world\<lparr>nanoid_calls := 2\<rparr>"

definition example_world_failing :: world where
  \<comment> \<open>the same world, with a store that fails at the third round trip\<close>
  "example_world_failing = example_world\<lparr>env := [[], [], [Failure (OtherFailure ''connection lost'')]]\<rparr>"

section \<open>Round trips\<close>

lemma round_trip_eq:
  "round_trip w = (failure_of (next_acts w), w\<lparr>db := after_env w, env := tl (env w)\<rparr>)"
  by (cases "env w") (simp_all add: round_trip_def next_acts_def after_env_def)

lemma emit_simps [simp]:
  "db (emit e w) = db w" "now (emit e w) = now w" "env (emit e w) = env w"
  "trace (emit e w) = trace w @ [e]" "nanoid_calls (emit e w) = nanoid_calls w"
  "random_calls (emit e w) = random_calls w" "nanoid_src (emit e w) = nanoid_src w"
  "random_src (emit e w) = random_src w"
  "next_acts (emit e w) = next_acts w" "after_env (emit e w) = after_env w"
  by (simp_all add: emit_def next_acts_def after_env_def)

lemma logger_simps [simp]:
  "db (logger c lv m w) = db w" "now (logger c lv m w) = now w" "env (logger c lv m w) = env w"
  "trace (logger c lv m w) = trace w @ [Logged c lv m]" "nanoid_calls (logger c lv m w) = nanoid_calls w"
  "random_calls (logger c lv m w) = random_calls w" "nanoid_src (logger c lv m w) = nanoid_src w"
  "random_src (logger c lv m w) = random_src w"
  "next_acts (logger c lv m w) = next_acts w" "after_env (logger c lv m w) = after_env w"
  by (simp_all add: logger_def)

lemma next_acts_at: "next_acts w = acts_at w 0"
  by (cases "env w") (simp_all add: next_acts_def acts_at_def)

lemma next_acts_tl: "next_acts (w\<lparr>env := tl (env w)\<rparr>) = acts_at w 1"
  by (cases "env w"; cases "tl (env w)") (auto simp: next_acts_def acts_at_def)

lemma after_env_quiet: "env w = [] \<Longrightarrow> after_env w = db w"
  by (simp add: after_env_def next_acts_def)

lemma concurrent_clicks [simp]:
  "clicks (concurrent t a s) = clicks s" "clicks_id_seq (concurrent t a s) = clicks_id_seq s"
  by (cases a; simp add: insertLink_def Let_def)+

lemma fold_concurrent_clicks [simp]:
  "clicks (fold (concurrent t) acts s) = clicks s"
  "clicks_id_seq (fold (concurrent t) acts s) = clicks_id_seq s"
  by (induction acts arbitrary: s) simp_all

lemma after_env_clicks [simp]:
  "clicks (after_env w) = clicks (db w)" "clicks_id_seq (after_env w) = clicks_id_seq (db w)"
  by (simp_all add: after_env_def)

lemma findUnique_shortCode_eq:
  "prisma_link_findUnique_shortCode code w =
     ((case failure_of (next_acts w) of Some e \<Rightarrow> Inl e
       | None \<Rightarrow> Inr (findLinkByShortCode (after_env w) code)),
      w\<lparr>db := after_env w, env := tl (env w), trace := trace w @ [LinkFindUniqueByShortCode code]\<rparr>)"
  by (simp add: prisma_link_findUnique_shortCode_def round_trip_eq emit_def next_acts_def after_env_def
           split: option.splits)

lemma example_world_lookup:
  "env example_world = []" "db example_world = example_store"
  "findLinkByShortCode example_store ''abc12345'' = Some (hd (links example_store))"
  "findLinkByShortCode example_store ''nonexist'' = None"
  "targetUrl (hd (links example_store)) = ''https://fiverr.com/gig''"
  "id_link (hd (links example_store)) = 1"
  by (simp_all add: example_world_def example_store_def findLinkByShortCode_def)

section \<open>Facts about recordClick\<close>

lemma click_create_eq:
  "prisma_click_create lid v credit w =
     (case failure_of (next_acts w) of
        Some e \<Rightarrow> (Inl e, w\<lparr>db := after_env w, env := tl (env w), trace := trace w @ [ClickCreate lid v credit]\<rparr>)
      | None \<Rightarrow> (let (c, s) = insertClick (after_env w) (now w) lid v credit
                 in (Inr c, w\<lparr>db := s, env := tl (env w), trace := trace w @ [ClickCreate lid v credit]\<rparr>)))"
  by (simp add: prisma_click_create_def round_trip_eq emit_def next_acts_def after_env_def
           split: option.splits prod.splits)

lemma validate_eq:
  "FraudService_validate w =
     (random_src w (random_calls w) < 1 / 2,
      w\<lparr>random_calls := Suc (random_calls w),
        trace := trace w @ [FraudValidate, Logged ''FraudService'' LOG
           (''Fraud validation result: '' @ (if random_src w (random_calls w) < 1 / 2 then ''valid'' else ''invalid''))]\<rparr>)"
  by (simp add: FraudService_validate_def Math_random_def emit_def logger_def Let_def)

lemma recordClick_lookup_fails:
  assumes "failure_of (acts_at w 0) = Some e"
  shows "recordClick code w =
           (Inl e, w\<lparr>db := after_env w, env := tl (env w),
                      trace := trace w @ [LinkFindUniqueByShortCode code]\<rparr>)"
  using assms by (simp add: recordClick_def findUnique_shortCode_eq next_acts_at)

lemma recordClick_absent:
  assumes "failure_of (acts_at w 0) = None" "findLinkByShortCode (after_env w) code = None"
  shows "recordClick code w =
           (Inr (), w\<lparr>db := after_env w, env := tl (env w),
                      trace := trace w @ [LinkFindUniqueByShortCode code,
                         Logged ''LinksService'' WARN
                           (''Click recording skipped '' @ em_dash @ '' link not found: '' @ code)]\<rparr>)"
  using assms by (simp add: recordClick_def findUnique_shortCode_eq next_acts_at logger_def emit_def)

text \<open>The world in which the click is inserted: after the lookup and the validation.\<close>

lemma recordClick_found:
  assumes "failure_of (acts_at w 0) = None" "findLinkByShortCode (after_env w) code = Some l"
  defines "v \<equiv> random_src w (random_calls w) < 1 / 2"
  defines "credit \<equiv> (if v then Decimal_0_05 else Decimal_0_00)"
  defines "w2 \<equiv> snd (FraudService_validate
             (w\<lparr>db := after_env w, env := tl (env w), trace := trace w @ [LinkFindUniqueByShortCode code]\<rparr>))"
  shows "recordClick code w =
           (case failure_of (acts_at w 1) of
              Some e \<Rightarrow>
                (Inl e, w2\<lparr>db := after_env w2, env := tl (env w2),
                           trace := trace w2 @ [ClickCreate (id_link l) v credit]\<rparr>)
            | None \<Rightarrow>
                (Inr (), logger ''LinksService'' LOG
                        (''Click recorded for '' @ code @ '': valid='' @ String_of_bool v @
                         '', earned='' @ Decimal_toString credit)
                      (w2\<lparr>db := snd (insertClick (after_env w2) (now w2) (id_link l) v credit),
                          env := tl (env w2), trace := trace w2 @ [ClickCreate (id_link l) v credit]\<rparr>)))"
    and "clicks (db w2) = clicks (db w)" and "clicks_id_seq (db w2) = clicks_id_seq (db w)"
    and "now w2 = now w"
    and "trace w2 = trace w @ [LinkFindUniqueByShortCode code, FraudValidate,
           Logged ''FraudService'' LOG (''Fraud validation result: '' @ (if v then ''valid'' else ''invalid''))]"
proof -
  let ?w1 = "w\<lparr>db := after_env w, env := tl (env w), trace := trace w @ [LinkFindUniqueByShortCode code]\<rparr>"
  have 1: "prisma_link_findUnique_shortCode code w = (Inr (Some l), ?w1)"
    using assms(1,2) by (simp add: findUnique_shortCode_eq next_acts_at)
  have 2: "FraudService_validate ?w1 = (v, w2)"
    by (simp add: validate_eq w2_def v_def)
  have 3: "next_acts w2 = acts_at w 1"
    using next_acts_tl [of w] by (simp add: w2_def validate_eq next_acts_def)
  show "recordClick code w =
           (case failure_of (acts_at w 1) of
              Some e \<Rightarrow>
                (Inl e, w2\<lparr>db := after_env w2, env := tl (env w2),
                           trace := trace w2 @ [ClickCreate (id_link l) v credit]\<rparr>)
            | None \<Rightarrow>
                (Inr (), logger ''LinksService'' LOG
                        (''Click recorded for '' @ code @ '': valid='' @ String_of_bool v @
                         '', earned='' @ Decimal_toString credit)
                      (w2\<lparr>db := snd (insertClick (after_env w2) (now w2) (id_link l) v credit),
                          env := tl (env w2), trace := trace w2 @ [ClickCreate (id_link l) v credit]\<rparr>)))"
    unfolding recordClick_def 1 Let_def prod.case sum.case option.case 2 credit_def [symmetric]
    by (simp add: click_create_eq 3 split: prod.splits option.splits)
  show "clicks (db w2) = clicks (db w)" "clicks_id_seq (db w2) = clicks_id_seq (db w)" "now w2 = now w"
    by (simp_all add: w2_def validate_eq)
  show "trace w2 = trace w @ [LinkFindUniqueByShortCode code, FraudValidate,
           Logged ''FraudService'' LOG (''Fraud validation result: '' @ (if v then ''valid'' else ''invalid''))]"
    by (simp add: w2_def validate_eq v_def)
qed

lemma insertClick_clicks:
  "clicks (snd (insertClick s t lid v credit)) =
     clicks s @ [\<lparr>id_click = Suc (clicks_id_seq s), linkId = lid, isValid = v,
                   earnedCredit = credit, clickedAt = t\<rparr>]"
  by (simp add: insertClick_def Let_def)

lemma validate_answer: "fst (FraudService_validate w) = (random_src w (random_calls w) < 1 / 2)"
  by (simp add: validate_eq)

lemma recordClick_clicks:
  "clicks (db (snd (recordClick code w))) =
     clicks (db w) @
     (case (failure_of (acts_at w 0), findLinkByShortCode (after_env w) code, failure_of (acts_at w 1)) of
        (None, Some l, None) \<Rightarrow>
          [\<lparr>id_click = Suc (clicks_id_seq (db w)), linkId = id_link l,
            isValid = fst (FraudService_validate w),
            earnedCredit = (if fst (FraudService_validate w) then Decimal_0_05 else Decimal_0_00),
            clickedAt = now w\<rparr>]
      | _ \<Rightarrow> [])"
proof (cases "failure_of (acts_at w 0)")
  case (Some e)
  then show ?thesis by (simp add: recordClick_lookup_fails)
next
  case None
  show ?thesis
  proof (cases "findLinkByShortCode (after_env w) code")
    case absent: None
    show ?thesis by (simp add: recordClick_absent [OF None absent] None absent)
  next
    case (Some l)
    show ?thesis
      by (cases "failure_of (acts_at w 1)")
         (simp_all add: recordClick_found [OF None Some] None Some insertClick_clicks validate_answer)
  qed
qed

lemma events_since_append [simp]: "trace w' = trace w @ es \<Longrightarrow> events_since w w' = es"
  by (simp add: events_since_def)

lemma recordClick_calls:
  "calls (events_since w (snd (recordClick code w))) =
     LinkFindUniqueByShortCode code #
     (case (failure_of (acts_at w 0), findLinkByShortCode (after_env w) code) of
        (None, Some l) \<Rightarrow>
          [FraudValidate,
           ClickCreate (id_link l) (fst (FraudService_validate w))
             (if fst (FraudService_validate w) then Decimal_0_05 else Decimal_0_00)]
      | _ \<Rightarrow> [])"
proof (cases "failure_of (acts_at w 0)")
  case (Some e)
  then show ?thesis by (simp add: recordClick_lookup_fails calls_def)
next
  case None
  show ?thesis
  proof (cases "findLinkByShortCode (after_env w) code")
    case absent: None
    show ?thesis by (simp add: recordClick_absent [OF None absent] None absent calls_def)
  next
    case (Some l)
    show ?thesis
      by (cases "failure_of (acts_at w 1)")
         (simp_all add: recordClick_found [OF None Some] None Some validate_answer calls_def)
  qed
qed

lemma recordClick_result:
  "fst (recordClick code w) =
     (case failure_of (acts_at w 0) of
        Some e \<Rightarrow> Inl e
      | None \<Rightarrow> (case findLinkByShortCode (after_env w) code of
                   None \<Rightarrow> Inr ()
                 | Some l \<Rightarrow> (case failure_of (acts_at w 1) of Some e \<Rightarrow> Inl e | None \<Rightarrow> Inr ())))"
proof (cases "failure_of (acts_at w 0)")
  case (Some e)
  then show ?thesis by (simp add: recordClick_lookup_fails)
next
  case None
  show ?thesis
  proof (cases "findLinkByShortCode (after_env w) code")
    case absent: None
    show ?thesis by (simp add: recordClick_absent [OF None absent] None absent)
  next
    case (Some l)
    show ?thesis
      by (cases "failure_of (acts_at w 1)")
         (simp_all add: recordClick_found [OF None Some] None Some)
  qed
qed

lemma example_world_facts:
  "acts_at example_world n = []" "after_env example_world = example_store"
  "now example_world = (2026, 2, 1, 5)"
  "fst (FraudService_validate example_world) = True"
  "clicks example_store = []" "clicks_id_seq example_store = 0"
  "random_calls example_world = 0"
  by (simp_all add: example_world_def example_store_def acts_at_def after_env_def next_acts_def
        validate_answer)

lemma example_world_invalid_facts:
  "acts_at example_world_invalid n = []" "after_env example_world_invalid = example_store"
  "now example_world_invalid = (2026, 2, 1, 5)"
  "fst (FraudService_validate example_world_invalid) = False"
  "db example_world_invalid = example_store"
  by (simp_all add: example_world_invalid_def example_world_def acts_at_def after_env_def next_acts_def
        validate_answer)

section \<open>Facts about doubles\<close>

lemma bit_length_pos: "0 < n \<Longrightarrow> 0 < bit_length n"
  by (subst bit_length.simps) simp

lemma bit_length_one: "bit_length (Suc 0) = Suc 0"
  by (simp add: bit_length.simps)

lemma bit_length_bounds:
  "0 < n \<Longrightarrow> 2 ^ (bit_length n - 1) \<le> n \<and> n < 2 ^ bit_length n"
proof (induction n rule: bit_length.induct)
  case (1 n)
  show ?case
  proof (cases "n div 2 = 0")
    case True
    with "1.prems" have "n = 1" by (simp add: div_eq_0_iff) 
    then show ?thesis by (simp add: bit_length_one)
  next
    case False
    then have pos: "0 < n div 2" by simp
    from "1.prems" have n0: "n \<noteq> 0" by simp
    from "1.IH" [OF n0 pos]
    have lo: "2 ^ (bit_length (n div 2) - 1) \<le> n div 2" and hi: "n div 2 < 2 ^ bit_length (n div 2)"
      by simp_all
    have b: "bit_length n = Suc (bit_length (n div 2))"
      using n0 by (subst bit_length.simps) simp
    have bpos: "0 < bit_length (n div 2)"
      using pos by (rule bit_length_pos)
    have "2 ^ (bit_length n - 1) = 2 * 2 ^ (bit_length (n div 2) - 1)"
      using bpos by (simp add: b flip: power_Suc)
    also have "\<dots> \<le> 2 * (n div 2)" using lo by simp
    also have "\<dots> \<le> n" by simp
    finally have 1: "2 ^ (bit_length n - 1) \<le> n" .
    have "n < 2 * (n div 2) + 2" by presburger
    also have "\<dots> \<le> 2 * 2 ^ bit_length (n div 2)" using hi by simp
    finally have 2: "n < 2 ^ bit_length n" by (simp add: b)
    from 1 2 show ?thesis ..
  qed
qed

lemma ilog2_bounds:
  assumes "0 < x"
  shows "2 powi (ilog2 x) \<le> x" and "x < 2 powi (ilog2 x + 1)"
proof -
  obtain n d where q: "quotient_of x = (n, d)" by force
  have d: "0 < d" using quotient_of_denom_pos [OF q] .
  have x: "x = of_int n / of_int d" using quotient_of_div [OF q] .
  have n: "0 < n"
    using assms d unfolding x by (simp add: zero_less_divide_iff)
  define bn where "bn = bit_length (nat n)"
  define bd where "bd = bit_length (nat d)"
  define e where "e = int bn - int bd"
  have nb: "2 ^ (bn - 1) \<le> nat n" "nat n < 2 ^ bn"
    using bit_length_bounds [of "nat n"] n by (simp_all add: bn_def)
  have db: "2 ^ (bd - 1) \<le> nat d" "nat d < 2 ^ bd"
    using bit_length_bounds [of "nat d"] d by (simp_all add: bd_def)
  have bn1: "1 \<le> bn" using n bit_length_pos [of "nat n"] by (simp add: bn_def Suc_le_eq)
  have bd1: "1 \<le> bd" using d bit_length_pos [of "nat d"] by (simp add: bd_def Suc_le_eq)
  have nr: "(2 :: rat) ^ (bn - 1) \<le> of_int n" "(of_int n :: rat) < 2 ^ bn"
  proof -
    have "(of_nat (2 ^ (bn - 1)) :: rat) \<le> of_nat (nat n)" using nb(1) by (simp only: of_nat_le_iff)
    then show "(2 :: rat) ^ (bn - 1) \<le> of_int n" using n by simp
    have "(of_nat (nat n) :: rat) < of_nat (2 ^ bn)" using nb(2) by (simp only: of_nat_less_iff)
    then show "(of_int n :: rat) < 2 ^ bn" using n by simp
  qed
  have dr: "(2 :: rat) ^ (bd - 1) \<le> of_int d" "(of_int d :: rat) < 2 ^ bd"
  proof -
    have "(of_nat (2 ^ (bd - 1)) :: rat) \<le> of_nat (nat d)" using db(1) by (simp only: of_nat_le_iff)
    then show "(2 :: rat) ^ (bd - 1) \<le> of_int d" using d by simp
    have "(of_nat (nat d) :: rat) < of_nat (2 ^ bd)" using db(2) by (simp only: of_nat_less_iff)
    then show "(of_int d :: rat) < 2 ^ bd" using d by simp
  qed
  have dpos: "(0 :: rat) < of_int d" using d by simp
  \<comment> \<open>\<open>2^(e-1) < x < 2^(e+1)\<close>\<close>
  have up: "x < 2 powi (e + 1)"
  proof -
    have "(of_int n :: rat) < 2 ^ bn" by (rule nr)
    also have "\<dots> = 2 powi (e + 1) * 2 ^ (bd - 1)"
    proof -
      have "(2 :: rat) ^ bn = 2 powi (int bn)" by simp
      also have "int bn = (e + 1) + int (bd - 1)" using bd1 by (simp add: e_def)
      also have "(2 :: rat) powi ((e + 1) + int (bd - 1)) = 2 powi (e + 1) * 2 powi int (bd - 1)"
        by (rule power_int_add) simp
      finally show ?thesis by simp
    qed
    also have "\<dots> \<le> 2 powi (e + 1) * of_int d"
      using dr(1) by (intro mult_left_mono) simp_all
    finally show ?thesis
      unfolding x using dpos by (simp add: pos_divide_less_eq)
  qed
  have low: "2 powi (e - 1) < x"
  proof -
    have "2 powi (e - 1) * (of_int d :: rat) < 2 powi (e - 1) * 2 ^ bd"
      using dr(2) by (intro mult_strict_left_mono) simp_all
    also have "\<dots> = 2 ^ (bn - 1)"
    proof -
      have "int (bn - 1) = (e - 1) + int bd" using bn1 by (simp add: e_def)
      then have "(2 :: rat) powi int (bn - 1) = 2 powi ((e - 1) + int bd)" by simp
      also have "\<dots> = 2 powi (e - 1) * 2 powi int bd"
        by (rule power_int_add) simp
      finally show ?thesis by simp
    qed
    also have "\<dots> \<le> of_int n" by (rule nr)
    finally show ?thesis
      unfolding x using dpos by (simp add: pos_less_divide_eq)
  qed
  have il: "ilog2 x = (if 2 powi e \<le> x then e else e - 1)"
    by (simp add: ilog2_def q e_def bn_def bd_def Let_def)
  show "2 powi (ilog2 x) \<le> x"
    using low by (simp add: il)
  show "x < 2 powi (ilog2 x + 1)"
    using up by (auto simp: il not_le)
qed

lemma ilog2_eqI:
  assumes "2 powi e \<le> x" and "x < 2 powi (e + 1)"
  shows "ilog2 x = e"
proof -
  have pos: "0 < x"
    using assms(1) by (rule less_le_trans [rotated]) simp
  note b = ilog2_bounds [OF pos]
  have "2 powi (ilog2 x) < (2 :: rat) powi (e + 1)" using b(1) assms(2) by simp
  then have 1: "ilog2 x < e + 1"
    using power_int_increasing [of "e + 1" "ilog2 x" "2 :: rat"] by (cases "ilog2 x < e + 1") simp_all
  have "2 powi e < (2 :: rat) powi (ilog2 x + 1)" using b(2) assms(1) by simp
  then have 2: "e < ilog2 x + 1"
    using power_int_increasing [of "ilog2 x + 1" e "2 :: rat"] by (cases "e < ilog2 x + 1") simp_all
  from 1 2 show ?thesis by simp
qed

lemma round_half_even_error: "\<bar>of_int (round_half_even m) - m\<bar> \<le> 1 / 2"
proof -
  have "of_int \<lfloor>m\<rfloor> \<le> m" "m < of_int \<lfloor>m\<rfloor> + 1" by linarith+
  then show ?thesis
    by (auto simp: round_half_even_def Let_def)
qed

lemma to_double_error:
  assumes "x \<noteq> 0"
  shows "\<bar>to_double x - x\<bar> \<le> 2 powi (ilog2 \<bar>x\<bar> - 53)"
proof -
  define q where "q = ilog2 \<bar>x\<bar> - 52"
  define P :: rat where "P = 2 powi q"
  define m where "m = \<bar>x\<bar> / P"
  define r where "r = round_half_even m"
  have P: "0 < P" by (simp add: P_def)
  have td: "to_double x = sgn x * of_int r * P"
    using assms by (simp add: to_double_def q_def P_def m_def r_def Let_def)
  have xm: "x = sgn x * (m * P)"
    using P by (simp add: m_def mult_sgn_abs)
  have "to_double x - x = sgn x * ((of_int r - m) * P)"
    by (subst (2) xm) (simp add: td algebra_simps)
  then have "\<bar>to_double x - x\<bar> = \<bar>sgn x\<bar> * (\<bar>of_int r - m\<bar> * P)"
    using P by (simp add: abs_mult)
  also have "\<bar>sgn x\<bar> = 1" using assms by (simp add: abs_sgn_eq)
  also have "1 * (\<bar>of_int r - m\<bar> * P) \<le> 1 / 2 * P"
    using round_half_even_error [of m] P by (simp add: r_def)
  also have "1 / 2 * P = 2 powi (ilog2 \<bar>x\<bar> - 53)"
  proof -
    have "ilog2 \<bar>x\<bar> - 52 = (ilog2 \<bar>x\<bar> - 53) + 1" by simp
    then have "P = 2 powi ((ilog2 \<bar>x\<bar> - 53) + 1)" by (simp add: P_def q_def)
    also have "\<dots> = 2 powi (ilog2 \<bar>x\<bar> - 53) * 2"
      by (subst power_int_add) simp_all
    finally show ?thesis by simp
  qed
  finally show ?thesis .
qed

lemma to_double_minus: "to_double (- x) = - to_double x"
  by (simp add: to_double_def Let_def)

lemma to_double_close:
  assumes "0 < x" and "x < 2 ^ 46"
  shows "\<bar>to_double x - x\<bar> \<le> 1 / 256"
proof -
  have "2 powi (ilog2 x) \<le> x" using ilog2_bounds(1) [OF assms(1)] .
  also have "x < 2 powi 46" using assms(2) by simp
  finally have "ilog2 x < 46"
    using power_int_increasing [of 46 "ilog2 x" "2 :: rat"] by (cases "ilog2 x < 46") simp_all
  then have "ilog2 x - 53 \<le> - 8" by simp
  then have "(2 :: rat) powi (ilog2 x - 53) \<le> 2 powi (- 8)"
    by (intro power_int_increasing) simp_all
  also have "(2 :: rat) powi (- 8) = 1 / 256" by (simp add: power_int_minus_divide)
  finally show ?thesis
    using to_double_error [of x] assms(1) by simp
qed

lemma toFixed2_near:
  assumes "\<bar>y * 100 - of_int c\<bar> < 1 / 2" and "0 < c" and "c < 10 ^ 22"
  shows "toFixed2 y = Some (decimal_fixed2 c)" and "0 < y"
proof -
  have c1: "(1 :: rat) \<le> of_int c" using assms(2) by simp
  have lo: "of_int c - 1 / 2 < y * 100" and hi: "y * 100 < of_int c + 1 / 2"
    using assms(1) by linarith+
  from lo c1 have "0 < y * 100" by linarith
  then show y: "0 < y" by simp
  have "of_int c \<le> y * 100 + 1 / 2" "y * 100 + 1 / 2 < of_int c + 1"
    using lo hi by linarith+
  then have fl: "\<lfloor>y * 100 + 1 / 2\<rfloor> = c" by (simp add: floor_unique)
  have "c \<le> 10 ^ 22 - 1" using assms(3) by simp
  then have "(of_int c :: rat) \<le> of_int (10 ^ 22 - 1)" by (simp only: of_int_le_iff)
  then have "(of_int c :: rat) \<le> 10 ^ 22 - 1" by simp
  with hi have "y * 100 < 10 ^ 22" by linarith
  then have small: "\<not> 10 ^ 21 \<le> \<bar>y\<bar>" using y by simp
  have ay: "\<bar>y\<bar> = y" "\<not> y < 0" using y by simp_all
  have ac: "\<bar>c\<bar> = c" "\<not> c < 0" using assms(2) by simp_all
  show "toFixed2 y = Some (decimal_fixed2 c)"
    using small ay ac by (simp add: toFixed2_def decimal_fixed2_def Let_def fl)
qed

lemma Number_of_Decimal_near:
  assumes "0 < c" and "c < 100 * 2 ^ 46"
  shows "\<bar>Number_of_Decimal c * 100 - of_int c\<bar> < 1 / 2"
proof -
  define x :: rat where "x = of_int c / 100"
  have x: "0 < x" using assms(1) by (simp add: x_def)
  have "(of_int c :: rat) < of_int (100 * 2 ^ 46)" using assms(2) by (simp only: of_int_less_iff)
  also have "(of_int (100 * 2 ^ 46) :: rat) = 100 * 2 ^ 46" by simp
  finally have "x < 2 ^ 46" unfolding x_def by (simp add: divide_less_eq)
  from to_double_close [OF x this] have c: "\<bar>to_double x - x\<bar> \<le> 1 / 256" .
  have eq: "to_double x * 100 - of_int c = (to_double x - x) * 100"
    by (simp add: x_def algebra_simps)
  have "\<bar>to_double x * 100 - of_int c\<bar> = \<bar>(to_double x - x) * 100\<bar>"
    by (simp only: eq)
  also have "\<dots> = \<bar>to_double x - x\<bar> * 100"
    by (simp only: abs_mult abs_numeral)
  also have "\<dots> \<le> 1 / 256 * 100" using c by (intro mult_right_mono) simp_all
  also have "\<dots> < 1 / 2" by simp
  finally show ?thesis
    unfolding Number_of_Decimal_def x_def [symmetric] .
qed

lemma toFixed2_Number_pos:
  assumes "0 < c" and "c < 100 * 2 ^ 46"
  shows "toFixed2 (Number_of_Decimal c) = Some (decimal_fixed2 c)" and "0 < Number_of_Decimal c"
proof -
  have "(100 :: int) * 2 ^ 46 < 10 ^ 22" by simp
  with assms(2) have "c < 10 ^ 22" by (rule less_trans)
  from toFixed2_near [OF Number_of_Decimal_near [OF assms] assms(1) this]
  show "toFixed2 (Number_of_Decimal c) = Some (decimal_fixed2 c)" and "0 < Number_of_Decimal c" .
qed

lemma toFixed2_minus:
  assumes "0 < y" and "toFixed2 y = Some s"
  shows "toFixed2 (- y) = Some (''-'' @ s)"
proof -
  have small: "\<not> 10 ^ 21 \<le> \<bar>y\<bar>"
    using assms(2) by (cases "10 ^ 21 \<le> \<bar>y\<bar>") (simp_all add: toFixed2_def)
  have a: "\<bar>- y\<bar> = \<bar>y\<bar>" "- y < 0" "\<not> y < 0" using assms(1) by simp_all
  have "toFixed2 (- y) = Some (''-'' @ the (toFixed2 y))"
    using small a by (simp add: toFixed2_def Let_def)
  then show ?thesis by (simp add: assms(2))
qed

lemma decimal_fixed2_minus: "0 < c \<Longrightarrow> decimal_fixed2 (- c) = ''-'' @ decimal_fixed2 c"
  by (simp add: decimal_fixed2_def)

lemma toFixed2_zero: "toFixed2 0 = Some ''0.00''" "decimal_fixed2 0 = ''0.00''"
  by (simp_all add: toFixed2_def decimal_fixed2_def padStart2_def digits.simps)


lemma toFixed2_Number_exact:
  assumes "\<bar>c\<bar> < 100 * 2 ^ 46"
  shows "toFixed2 (Number_of_Decimal c) = Some (decimal_fixed2 c)"
proof -
  consider "c = 0" | "0 < c" | "c < 0" by linarith
  then show ?thesis
  proof cases
    case 1
    then show ?thesis
      by (simp add: Number_of_Decimal_def to_double_def toFixed2_zero)
  next
    case 2
    then show ?thesis using assms by (simp add: toFixed2_Number_pos)
  next
    case 3
    then have pos: "0 < - c" "- c < 100 * 2 ^ 46" using assms by simp_all
    note e = toFixed2_Number_pos [OF pos]
    have "Number_of_Decimal c = - Number_of_Decimal (- c)"
      by (simp add: Number_of_Decimal_def to_double_minus flip: minus_divide_left)
    then have "toFixed2 (Number_of_Decimal c) = Some (''-'' @ decimal_fixed2 (- c))"
      using toFixed2_minus [OF e(2) e(1)] by simp
    also have "''-'' @ decimal_fixed2 (- c) = decimal_fixed2 c"
      using decimal_fixed2_minus [OF pos(1)] by simp
    finally show ?thesis .
  qed
qed

subsection \<open>Whole numbers and quotients of counts\<close>

lemma round_half_even_of_int: "round_half_even (of_int k) = k"
  by (simp add: round_half_even_def Let_def)

lemma ilog2_nonneg: "1 \<le> x \<Longrightarrow> 0 \<le> ilog2 x"
proof -
  assume x: "1 \<le> x"
  then have "0 < x" by simp
  from ilog2_bounds(2) [OF this] x have "(1 :: rat) < 2 powi (ilog2 x + 1)" by simp
  then have "\<not> ilog2 x + 1 \<le> 0"
    using power_int_increasing [of "ilog2 x + 1" 0 "2 :: rat"] by auto
  then show ?thesis by simp
qed

lemma ilog2_less: "0 < x \<Longrightarrow> x < 2 ^ k \<Longrightarrow> ilog2 x < int k"
proof -
  assume x: "0 < x" "x < 2 ^ k"
  have "2 powi (ilog2 x) \<le> x" using ilog2_bounds(1) [OF x(1)] .
  also have "x < 2 powi (int k)" using x(2) by simp
  finally show ?thesis
    using power_int_increasing [of "int k" "ilog2 x" "2 :: rat"] by (cases "ilog2 x < int k") simp_all
qed

text \<open>An integer below 2^53 is a double.\<close>

lemma to_double_of_int:
  assumes "0 \<le> k" and "k < 2 ^ 53"
  shows "to_double (of_int k) = of_int k"
proof (cases "k = 0")
  case True
  then show ?thesis by (simp add: to_double_def)
next
  case False
  with assms have k: "1 \<le> k" by simp
  define x :: rat where "x = of_int k"
  have x1: "1 \<le> x" using k by (simp add: x_def)
  have x0: "0 < x" using x1 by simp
  have "(of_int k :: rat) < of_int (2 ^ 53)" using assms(2) by (simp only: of_int_less_iff)
  then have "x < 2 ^ 53" by (simp add: x_def)
  from ilog2_less [OF x0 this] have e53: "ilog2 x \<le> 52" by simp
  have e0: "0 \<le> ilog2 x" using x1 by (rule ilog2_nonneg)
  define j where "j = nat (52 - ilog2 x)"
  have q: "ilog2 x - 52 = - int j" using e53 by (simp add: j_def)
  have p: "(2 :: rat) powi (ilog2 x - 52) = 1 / 2 ^ j"
    unfolding q by (simp add: power_int_minus_divide)
  have m: "x / (1 / 2 ^ j) = of_int (k * 2 ^ j)"
    by (simp add: x_def)
  have "to_double x = sgn x * of_int (round_half_even (\<bar>x\<bar> / 2 powi (ilog2 \<bar>x\<bar> - 52))) * 2 powi (ilog2 \<bar>x\<bar> - 52)"
    using x0 by (simp add: to_double_def Let_def)
  also have "\<bar>x\<bar> = x" using x0 by simp
  also have "sgn x = 1" using x0 by simp
  finally have "to_double x = of_int (round_half_even (x / (1 / 2 ^ j))) * (1 / 2 ^ j)"
    by (simp add: p)
  also have "\<dots> = of_int (k * 2 ^ j) * (1 / 2 ^ j)"
    by (simp only: m round_half_even_of_int)
  also have "\<dots> = x" by (simp add: x_def)
  finally show ?thesis by (simp add: x_def)
qed

lemma to_double_relative_error:
  assumes "0 < x"
  shows "\<bar>to_double x - x\<bar> \<le> x / 2 ^ 53"
proof -
  have "\<bar>to_double x - x\<bar> \<le> 2 powi (ilog2 \<bar>x\<bar> - 53)"
    using assms by (intro to_double_error) simp
  also have "\<bar>x\<bar> = x" using assms by simp
  also have "(2 :: rat) powi (ilog2 x - 53) = 2 powi (ilog2 x) / 2 ^ 53"
    by (simp add: power_int_diff)
  also have "\<dots> \<le> x / 2 ^ 53"
    using ilog2_bounds(1) [OF assms] by (simp add: divide_right_mono)
  finally show ?thesis .
qed

text \<open>
  \<^verbatim>\<open>Math.ceil(a / n)\<close> for a count \<open>a\<close> below 2^53 and \<open>n \<ge> 1\<close>: the division rounds
  the quotient to a double, and the ceiling of that double is the ceiling of the
  quotient.
\<close>

lemma Math_ceil_quotient:
  assumes "0 \<le> a" and "a < 2 ^ 53" and "1 \<le> n"
  shows "\<lceil>to_double (of_int a / of_int n)\<rceil> = \<lceil>(of_int a :: rat) / of_int n\<rceil>"
proof (cases "a = 0")
  case True
  then show ?thesis by (simp add: to_double_def)
next
  case False
  with assms have a: "0 < a" by simp
  define x :: rat where "x = of_int a / of_int n"
  define k where "k = \<lceil>x\<rceil>"
  have n: "(0 :: rat) < of_int n" using assms(3) by simp
  have x0: "0 < x" using a n by (simp add: x_def)
  have k_hi: "x \<le> of_int k" by (simp add: k_def)
  have k_lo: "of_int k - 1 < x" using ceiling_correct [of x] by (simp add: k_def)
  show ?thesis
  proof (cases "x = of_int k")
    case True
    have "0 \<le> k" using x0 True by simp
    moreover have "k < 2 ^ 53"
    proof -
      have "(of_int a :: rat) = x * of_int n" using n by (simp add: x_def)
      then have "of_int k * of_int n = (of_int a :: rat)" by (simp add: True)
      then have "k * n = a" by (metis of_int_eq_iff of_int_mult)
      moreover have "k \<le> k * n" using \<open>0 \<le> k\<close> assms(3) by (simp add: mult_le_cancel_left1)
      ultimately show ?thesis using assms(2) by simp
    qed
    ultimately have "to_double (of_int k) = of_int k" by (rule to_double_of_int)
    then show ?thesis
      unfolding x_def [symmetric] k_def [symmetric] by (simp add: True)
  next
    case False
    then have lt: "x < of_int k" using k_hi by simp
    \<comment> \<open>the quotient is at least \<open>1 / n\<close> away from both neighbouring integers\<close>
    have an: "x * of_int n = of_int a" using n by (simp add: x_def)
    have "of_int (k * n) > (of_int a :: rat)"
      using lt n an by (simp add: pos_divide_less_eq [symmetric] x_def)
    then have "a < k * n" by (simp only: of_int_less_iff)
    then have "a + 1 \<le> k * n" by simp
    then have "(of_int (a + 1) :: rat) \<le> of_int (k * n)" by (simp only: of_int_le_iff)
    then have up: "x + 1 / of_int n \<le> of_int k"
      using n by (simp add: x_def field_simps)
    have "of_int ((k - 1) * n) < (of_int a :: rat)"
      using k_lo n an by (simp add: pos_less_divide_eq [symmetric] x_def)
    then have "(k - 1) * n < a" by (simp only: of_int_less_iff)
    then have "(k - 1) * n + 1 \<le> a" by simp
    then have "(of_int ((k - 1) * n + 1) :: rat) \<le> of_int a" by (simp only: of_int_le_iff)
    then have down: "of_int k - 1 \<le> x - 1 / of_int n"
      using n by (simp add: x_def field_simps)
    \<comment> \<open>the rounding error is below \<open>1 / n\<close>\<close>
    have "(of_int a :: rat) < of_int (2 ^ 53)" using assms(2) by (simp only: of_int_less_iff)
    then have "(of_int a :: rat) / 2 ^ 53 < 1" by simp
    then have "x / 2 ^ 53 < 1 / of_int n"
      using n by (simp add: x_def field_simps)
    with to_double_relative_error [OF x0] have err: "\<bar>to_double x - x\<bar> < 1 / of_int n" by simp
    have "of_int k - 1 < to_double x" using err down by linarith
    moreover have "to_double x < of_int k" using err up by linarith
    ultimately have "\<lceil>to_double x\<rceil> = k"
      by (intro ceiling_unique) simp_all
    then show ?thesis by (simp add: x_def k_def)
  qed
qed

lemma round_half_even_ge_floor: "\<lfloor>m\<rfloor> \<le> round_half_even m"
  by (simp add: round_half_even_def Let_def)

lemma ilog2_ge: "2 ^ k \<le> x \<Longrightarrow> int k \<le> ilog2 x"
proof -
  assume x: "(2 :: rat) ^ k \<le> x"
  have "(0 :: rat) < 2 ^ k" by simp
  then have x0: "0 < x" using x by (rule less_le_trans)
  have "(2 :: rat) powi (int k) \<le> x" using x by simp
  also have "x < 2 powi (ilog2 x + 1)" using ilog2_bounds(2) [OF x0] .
  finally have "int k < ilog2 x + 1"
    using power_int_increasing [of "ilog2 x + 1" "int k" "2 :: rat"]
    by (cases "int k < ilog2 x + 1") simp_all
  then show ?thesis by simp
qed

text \<open>Rounding does not cross a power of two.\<close>

lemma to_double_ge_pow2:
  assumes "2 ^ k \<le> x"
  shows "2 ^ k \<le> to_double x"
proof -
  have "(0 :: rat) < 2 ^ k" by simp
  then have x0: "0 < x" using assms by (rule less_le_trans)
  define e where "e = ilog2 x"
  define P :: rat where "P = 2 powi (e - 52)"
  have P: "0 < P" by (simp add: P_def)
  have ke: "int k \<le> e" unfolding e_def using assms by (rule ilog2_ge)
  have "2 powi e \<le> x" unfolding e_def using ilog2_bounds(1) [OF x0] .
  moreover have "(2 :: rat) powi e = 2 ^ 52 * P"
  proof -
    have "e = 52 + (e - 52)" by simp
    then have "(2 :: rat) powi e = 2 powi (52 + (e - 52))" by simp
    also have "\<dots> = 2 powi 52 * 2 powi (e - 52)" by (subst power_int_add) simp_all
    finally show ?thesis by (simp add: P_def)
  qed
  ultimately have "2 ^ 52 * P \<le> x" by simp
  then have "(2 :: rat) ^ 52 \<le> x / P" using P by (simp add: pos_le_divide_eq)
  then have "(of_int (2 ^ 52) :: rat) \<le> x / P" by simp
  then have "2 ^ 52 \<le> \<lfloor>x / P\<rfloor>" by (simp only: le_floor_iff)
  then have "2 ^ 52 \<le> round_half_even (x / P)"
    using round_half_even_ge_floor [of "x / P"] by linarith
  then have "(of_int (2 ^ 52) :: rat) \<le> of_int (round_half_even (x / P))"
    by (simp only: of_int_le_iff)
  then have "2 ^ 52 * P \<le> of_int (round_half_even (x / P)) * P"
    using P by simp
  moreover have "to_double x = of_int (round_half_even (x / P)) * P"
    using x0 by (simp add: to_double_def Let_def e_def P_def)
  ultimately have "2 powi e \<le> to_double x"
    using \<open>(2 :: rat) powi e = 2 ^ 52 * P\<close> by simp
  moreover have "(2 :: rat) powi (int k) \<le> 2 powi e"
    using ke by (intro power_int_increasing) simp_all
  ultimately show ?thesis by simp
qed

text \<open>A whole number of at most 53 bits, scaled by a power of two, is a double.\<close>

lemma to_double_scaled:
  assumes "0 < k" and "k < 2 ^ 53"
  shows "to_double (of_int k * 2 ^ j) = of_int k * 2 ^ j"
proof -
  define x :: rat where "x = of_int k * 2 ^ j"
  have k1: "(1 :: rat) \<le> of_int k" using assms(1) by simp
  have x0: "0 < x" using assms(1) by (simp add: x_def)
  have "(of_int k :: rat) < of_int (2 ^ 53)" using assms(2) by (simp only: of_int_less_iff)
  then have "(of_int k :: rat) * 2 ^ j < 2 ^ 53 * 2 ^ j" by simp
  then have "x < 2 ^ (j + 53)" by (simp add: x_def power_add)
  from ilog2_less [OF x0 this] have e: "ilog2 x - 52 \<le> int j" by simp
  define i where "i = nat (int j - (ilog2 x - 52))"
  have q: "ilog2 x - 52 = int j - int i" using e by (simp add: i_def)
  have p: "(2 :: rat) powi (ilog2 x - 52) = 2 ^ j / 2 ^ i"
    unfolding q by (simp add: power_int_diff)
  have m: "x / (2 ^ j / 2 ^ i) = of_int (k * 2 ^ i)"
    by (simp add: x_def)
  have "to_double x = of_int (round_half_even (x / 2 powi (ilog2 x - 52))) * 2 powi (ilog2 x - 52)"
    using x0 by (simp add: to_double_def Let_def)
  also have "\<dots> = of_int (k * 2 ^ i) * (2 ^ j / 2 ^ i)"
    unfolding p m round_half_even_of_int by (rule refl)
  also have "\<dots> = x" by (simp add: x_def)
  finally show ?thesis by (simp add: x_def)
qed

lemma is_Number_small: "0 \<le> k \<Longrightarrow> k < 2 ^ 53 \<Longrightarrow> is_Number k"
proof -
  assume k: "0 \<le> k" "k < 2 ^ 53"
  have "(2 :: int) ^ 53 \<le> 2 ^ 1024" by (rule power_increasing) simp_all
  then have "\<bar>k\<bar> < 2 ^ 1024" using k by linarith
  then show ?thesis using k by (simp add: is_Number_def to_double_of_int)
qed

section \<open>Facts about paging\<close>

lemma listLinks_sorted:
  "sorted_wrt (\<lambda>a b. createdAt b \<le> createdAt a) (listLinks s k m)"
proof -
  have "sorted_wrt (\<lambda>a b. createdAt a \<le> createdAt b) (sort_key createdAt (links s))"
    using sorted_sort_key [of createdAt "links s"] by (simp add: sorted_map)
  then have "sorted_wrt (\<lambda>a b. createdAt b \<le> createdAt a) (rev (sort_key createdAt (links s)))"
    by (simp add: sorted_wrt_rev)
  then show ?thesis
    unfolding listLinks_def by (intro sorted_wrt_take sorted_wrt_drop)
qed

lemma listLinks_all:
  "mset (listLinks s 0 (length (links s))) = mset (links s)"
  by (simp add: listLinks_def)

lemma listLinks_window:
  "listLinks s k m = take m (drop k (listLinks s 0 (length (links s))))"
  by (simp add: listLinks_def)

lemma listLinks_beyond: "length (links s) \<le> k \<Longrightarrow> listLinks s k m = []"
  by (simp add: listLinks_def)

lemma listLinks_within: "k < length (links s) \<Longrightarrow> 0 < m \<Longrightarrow> listLinks s k m \<noteq> []"
  by (simp add: listLinks_def)

lemma ceiling_pages:
  fixes a n :: int
  assumes "0 < n"
  shows "(\<lceil>(of_int a :: rat) / of_int n\<rceil> - 1) * n < a" and "a \<le> \<lceil>(of_int a :: rat) / of_int n\<rceil> * n"
proof -
  let ?k = "\<lceil>(of_int a :: rat) / of_int n\<rceil>"
  have n: "(0 :: rat) < of_int n" using assms by simp
  have "(of_int a :: rat) / of_int n \<le> of_int ?k" by (rule le_of_int_ceiling)
  then have "(of_int a :: rat) \<le> of_int ?k * of_int n"
    using n by (simp only: pos_divide_le_eq)
  then have "(of_int a :: rat) \<le> of_int (?k * n)" by simp
  then show "a \<le> ?k * n" by (simp only: of_int_le_iff)
  have "of_int (?k - 1) < (of_int a :: rat) / of_int n"
    using ceiling_correct [of "(of_int a :: rat) / of_int n"] by simp
  then have "of_int (?k - 1) * of_int n < (of_int a :: rat)"
    using n by (simp only: pos_less_divide_eq)
  then have "(of_int ((?k - 1) * n) :: rat) < of_int a" by simp
  then show "(?k - 1) * n < a" by (simp only: of_int_less_iff)
qed

lemma store_of_42_length: "length (links store_of_42) = 42"
  by (simp add: store_of_42_def)

lemma or_zero_id [simp]: "or_zero x = x"
  by (simp add: or_zero_def)

lemma aggregateClicks_eq:
  "aggregateClicks s lid =
     (length (clicksOf s lid),
      if clicksOf s lid = [] then None else Some (sum_list (map earnedCredit (clicksOf s lid))))"
  by (simp add: aggregateClicks_def Let_def)

lemma Number_of_Decimal_zero [simp]: "Number_of_Decimal 0 = 0"
  by (simp add: Number_of_Decimal_def to_double_def)


lemma monthlyBreakdown_eq:
  "monthlyBreakdown (stats_item s l) = map breakdown_row (groupClicksByMonth s (id_link l))"
  by (simp add: stats_item_def aggregateClicks_eq)

lemma earnings_eq:
  "earnings (breakdown_row (m, k, amt)) = toFixed2 (Number_of_Decimal amt)"
  by (simp add: breakdown_row_def Let_def)


lemma store_with_clicks_clicksOf:
  "clicksOf (store_with_clicks k) 1 = map valid_click [1..<Suc k]"
  "links (store_with_clicks k) = links example_store"
proof -
  have "filter (\<lambda>c. linkId c = 1) (map valid_click xs) = map valid_click xs" for xs
    by (induction xs) (simp_all add: valid_click_def)
  then show "clicksOf (store_with_clicks k) 1 = map valid_click [1..<Suc k]"
    by (simp add: clicksOf_def store_with_clicks_def)
  show "links (store_with_clicks k) = links example_store"
    by (simp add: store_with_clicks_def)
qed


lemma store_with_clicks_page:
  "listLinks (store_with_clicks k) 0 10 = links example_store"
  "id_link (hd (links example_store)) = 1" "links example_store = [hd (links example_store)]"
  by (simp_all add: listLinks_def store_with_clicks_clicksOf example_store_def)

text \<open>
  The bound of \<open>toFixed2_Number_exact\<close> is there for a reason: the amount
  70368744177664.10, just above 2^46 units, is converted to the double
  70368744177664.09375 and formatted as \<^verbatim>\<open>70368744177664.09\<close>. No sum of recorded clicks
  comes near it.
\<close>

lemma Number_of_Decimal_beyond:
  "Number_of_Decimal 7036874417766410 = 4503599627370502 / 64"
proof -
  define x :: rat where "x = 7036874417766410 / 100"
  have il: "ilog2 \<bar>x\<bar> = 46"
    by (rule ilog2_eqI) (simp_all add: x_def)
  have p: "(2 :: rat) powi (- 6) = 1 / 64"
    by (simp add: power_int_minus_divide)
  have m: "\<bar>x\<bar> / (1 / 64) = 4503599627370502 + 2 / 5"
    by (simp add: x_def)
  have fl: "\<lfloor>(4503599627370502 :: rat) + 2 / 5\<rfloor> = 4503599627370502"
    by (simp add: floor_unique)
  have r: "round_half_even (4503599627370502 + 2 / 5) = 4503599627370502"
    unfolding round_half_even_def Let_def fl by simp
  have "to_double x = sgn x * of_int (round_half_even (\<bar>x\<bar> / 2 powi (- 6))) * 2 powi (- 6)"
    unfolding to_double_def Let_def il by (simp add: x_def)
  also have "\<dots> = 4503599627370502 / 64"
    unfolding p m r by (simp add: x_def)
  finally show ?thesis
    by (simp add: Number_of_Decimal_def x_def)
qed

lemma toFixed2_beyond:
  "toFixed2 (4503599627370502 / 64) = Some ''70368744177664.09''"
proof -
  have fl: "\<lfloor>\<bar>4503599627370502 / 64 :: rat\<bar> * 100 + 1 / 2\<rfloor> = 7036874417766409"
    by (simp add: floor_unique)
  show ?thesis
    unfolding toFixed2_def Let_def fl
    by (simp add: digits.simps padStart2_def)
qed

lemma decimal_fixed2_beyond:
  "decimal_fixed2 7036874417766410 = ''70368744177664.10''"
  by (simp add: decimal_fixed2_def digits.simps padStart2_def)



lemma digits_lt_10: "n < 10 \<Longrightarrow> digits n = [''0123456789'' ! n]"
  by (subst digits.simps) simp

lemma digits_lt_100: "10 \<le> n \<Longrightarrow> n < 100 \<Longrightarrow> digits n = [''0123456789'' ! (n div 10), ''0123456789'' ! (n mod 10)]"
  by (subst digits.simps) (simp add: digits_lt_10 div_less_iff_less_mult)

lemma digits_lt_1000:
  assumes "100 \<le> n" "n < 1000"
  shows "digits n = [''0123456789'' ! (n div 100), ''0123456789'' ! (n div 10 mod 10), ''0123456789'' ! (n mod 10)]"
proof -
  have "n div 10 div 10 = n div (10 * 10)" by (rule div_mult2_eq [symmetric])
  then have d: "n div 10 div 10 = n div 100" by simp
  have r: "10 \<le> n div 10" "n div 10 < 100"
    using assms by (simp_all add: less_eq_div_iff_mult_less_eq div_less_iff_less_mult)
  have "digits n = digits (n div 10) @ [''0123456789'' ! (n mod 10)]"
    using assms by (subst digits.simps) simp
  then show ?thesis
    by (simp only: digits_lt_100 [OF r] d append.simps)
qed

lemma digits_lt_10000:
  assumes "1000 \<le> n" "n < 10000"
  shows "digits n = [''0123456789'' ! (n div 1000), ''0123456789'' ! (n div 100 mod 10),
                 ''0123456789'' ! (n div 10 mod 10), ''0123456789'' ! (n mod 10)]"
proof -
  have "n div 10 div 100 = n div (10 * 100)" "n div 10 div 10 = n div (10 * 10)"
    by (rule div_mult2_eq [symmetric])+
  then have d: "n div 10 div 100 = n div 1000" "n div 10 div 10 = n div 100" by simp_all
  have r: "100 \<le> n div 10" "n div 10 < 1000"
    using assms by (simp_all add: less_eq_div_iff_mult_less_eq div_less_iff_less_mult)
  have "digits n = digits (n div 10) @ [''0123456789'' ! (n mod 10)]"
    using assms by (subst digits.simps) simp
  then show ?thesis
    by (simp only: digits_lt_1000 [OF r] d append.simps)
qed

lemma padStart2_digits: "n < 100 \<Longrightarrow> padStart2 (digits n) = [''0123456789'' ! (n div 10), ''0123456789'' ! (n mod 10)]"
  by (cases "n < 10") (simp_all add: padStart2_def digits_lt_10 digits_lt_100)

lemma month_label:
  "month (breakdown_row ((y, mo, d, ms), k, amt)) = padStart2 (digits mo) @ ''/'' @ String_of_int y"
  by (simp add: breakdown_row_def getUTCMonth_def getUTCFullYear_def String_of_int_def Let_def)

lemma month_label_MM_YYYY:
  assumes "mo < 100" "1000 \<le> y" "y \<le> 9999"
  shows "month (breakdown_row ((y, mo, d, ms), k, amt)) = label_MM_YYYY mo y"
proof -
  have "String_of_int y = digits (nat y)" using assms by (simp add: String_of_int_def)
  also have "\<dots> = [''0123456789'' ! (nat y div 1000), ''0123456789'' ! (nat y div 100 mod 10),
                 ''0123456789'' ! (nat y div 10 mod 10), ''0123456789'' ! (nat y mod 10)]"
    using assms by (intro digits_lt_10000) simp_all
  finally show ?thesis
    using assms(1) by (simp add: month_label padStart2_digits label_MM_YYYY_def)
qed

lemma groupClicksByMonth_months:
  "map fst (groupClicksByMonth s lid) = sort (remdups (map month_key (clicksOf s lid)))"
  by (simp add: groupClicksByMonth_def Let_def o_def month_key_def [abs_def])

lemma groupClicksByMonth_nth:
  assumes "j < length (groupClicksByMonth s lid)"
  shows "groupClicksByMonth s lid ! j =
          (map fst (groupClicksByMonth s lid) ! j,
           length (filter (\<lambda>c. month_key c = map fst (groupClicksByMonth s lid) ! j) (clicksOf s lid)),
           sum_list (map earnedCredit
             (filter (\<lambda>c. month_key c = map fst (groupClicksByMonth s lid) ! j) (clicksOf s lid))))"
  using assms by (simp add: groupClicksByMonth_def Let_def month_key_def [abs_def])

lemma three_clicks_of:
  "clicksOf store_three_clicks 1 =
     [\<lparr>id_click = 1, linkId = 1, isValid = True, earnedCredit = 5, clickedAt = (2026, 1, 3, 1000)\<rparr>,
      \<lparr>id_click = 2, linkId = 1, isValid = False, earnedCredit = 0, clickedAt = (2025, 12, 15, 43200000)\<rparr>,
      \<lparr>id_click = 4, linkId = 1, isValid = True, earnedCredit = 5, clickedAt = (2025, 12, 28, 86399999)\<rparr>]"
  by (simp add: clicksOf_def store_three_clicks_def)

lemma three_clicks_months:
  "sort (remdups (map month_key (clicksOf store_three_clicks 1))) = [(2025, 12, 1, 0), (2026, 1, 1, 0)]"
  unfolding three_clicks_of by (simp add: month_key_def date_trunc_month_def)

lemma decimal_fixed2_5: "decimal_fixed2 5 = ''0.05''"
  by (simp add: decimal_fixed2_def digits.simps padStart2_def)

lemma three_clicks_breakdown:
  "monthlyBreakdown (stats_item store_three_clicks (hd (links example_store))) =
     [\<lparr>month = ''12/2025'', clicks_mb = 2, earnings = Some ''0.05''\<rparr>,
      \<lparr>month = ''01/2026'', clicks_mb = 1, earnings = Some ''0.05''\<rparr>]"
proof -
  have e: "toFixed2 (Number_of_Decimal 5) = Some ''0.05''"
    using toFixed2_Number_exact [of 5] by (simp add: decimal_fixed2_5)
  have g: "groupClicksByMonth store_three_clicks 1 = [((2025, 12, 1, 0), 2, 5), ((2026, 1, 1, 0), 1, 5)]"
    unfolding groupClicksByMonth_def Let_def three_clicks_of
    by (simp add: date_trunc_month_def)
  show ?thesis
    unfolding monthlyBreakdown_eq store_with_clicks_page(2) g
    by (simp add: breakdown_row_def Let_def e
          getUTCMonth_def getUTCFullYear_def String_of_int_def digits.simps padStart2_def)
qed

subsection \<open>The offset of a page\<close>

lemma skip_of_exact:
  assumes "1 \<le> p" and "1 \<le> n" and "(p - 1) * n < 2 ^ 53"
  shows "skip_of p n = of_int ((p - 1) * n)"
proof -
  have "(p - 1) * 1 \<le> (p - 1) * n" using assms(1,2) by (intro mult_left_mono) simp_all
  then have "p - 1 < 2 ^ 53" using assms(3) by simp
  moreover have "0 \<le> p - 1" using assms(1) by simp
  ultimately have "to_double (of_int (p - 1)) = of_int (p - 1)" by (intro to_double_of_int)
  then have "skip_of p n = to_double (of_int ((p - 1) * n))"
    by (simp add: skip_of_def)
  also have "\<dots> = of_int ((p - 1) * n)"
    using assms by (intro to_double_of_int) simp_all
  finally show ?thesis .
qed

lemma skip_of_large:
  assumes "1 \<le> p" and "1 \<le> n" and "2 ^ 53 \<le> (p - 1) * n"
  shows "2 ^ 53 \<le> skip_of p n"
proof (cases "p - 1 < 2 ^ 53")
  case True
  moreover have "0 \<le> p - 1" using assms(1) by simp
  ultimately have "to_double (of_int (p - 1)) = of_int (p - 1)" by (intro to_double_of_int)
  then have "skip_of p n = to_double (of_int ((p - 1) * n))"
    by (simp add: skip_of_def)
  moreover have "(of_int (2 ^ 53) :: rat) \<le> of_int ((p - 1) * n)"
    using assms(3) by (simp only: of_int_le_iff)
  then have "(2 :: rat) ^ 53 \<le> of_int ((p - 1) * n)" by simp
  ultimately show ?thesis using to_double_ge_pow2 [of 53 "of_int ((p - 1) * n)"] by simp
next
  case False
  then have "2 ^ 53 \<le> p - 1" by simp
  then have "(of_int (2 ^ 53) :: rat) \<le> of_int (p - 1)" by (simp only: of_int_le_iff)
  then have "(2 :: rat) ^ 53 \<le> of_int (p - 1)" by simp
  then have y': "2 ^ 53 \<le> to_double (of_int (p - 1))" by (rule to_double_ge_pow2)
  define y where "y = to_double (of_int (p - 1))"
  have y: "2 ^ 53 \<le> y" using y' by (simp only: y_def)
  have "(0 :: rat) \<le> 2 ^ 53" by simp
  then have y0: "0 \<le> y" using y by (rule order_trans)
  have n: "(1 :: rat) \<le> of_int n" using assms(2) by simp
  have "y * 1 \<le> y * of_int n" using n y0 by (rule mult_left_mono)
  then have "y \<le> y * of_int n" by simp
  with y have "2 ^ 53 \<le> y * of_int n" by (rule order_trans)
  then have "2 ^ 53 \<le> to_double (y * of_int n)"
    by (rule to_double_ge_pow2)
  then show ?thesis by (simp add: skip_of_def y_def)
qed

text \<open>An offset that fits 64 bits does not come from a product beyond the doubles.\<close>

lemma skip_of_fits:
  assumes "1 \<le> p" and "1 \<le> n" and "skip_of p n \<le> of_int Int64_max"
  shows "(p - 1) * n < 2 ^ 1023"
proof (rule ccontr)
  assume "\<not> (p - 1) * n < 2 ^ 1023"
  then have big: "2 ^ 1023 \<le> (p - 1) * n" by simp
  have n: "(1 :: rat) \<le> of_int n" using assms(2) by simp
  have n0: "(0 :: rat) < of_int n" using assms(2) by simp
  define a :: rat where "a = of_int (p - 1)"
  have a0: "0 < a"
  proof -
    have "0 < (p - 1) * n" using big by (rule less_le_trans [rotated]) simp
    then have "0 < p - 1" using assms(2) by (simp add: zero_less_mult_iff)
    then show ?thesis by (simp add: a_def)
  qed
  have "(of_int (2 ^ 1023) :: rat) \<le> of_int ((p - 1) * n)"
    using big by (simp only: of_int_le_iff)
  then have an: "2 ^ 1023 \<le> a * of_int n" by (simp add: a_def)
  have "\<bar>to_double a - a\<bar> \<le> a / 2 ^ 53" using a0 by (rule to_double_relative_error)
  then have "a - a / 2 ^ 53 \<le> to_double a" by linarith
  moreover have "a / 2 \<le> a - a / 2 ^ 53" using a0 by simp
  ultimately have "a / 2 \<le> to_double a" by linarith
  then have "a / 2 * of_int n \<le> to_double a * of_int n"
    using n0 by (intro mult_right_mono) simp_all
  moreover have "(2 :: rat) ^ 1022 \<le> a / 2 * of_int n" using an by simp
  ultimately have "(2 :: rat) ^ 1022 \<le> to_double a * of_int n" by linarith
  moreover have "(2 :: rat) ^ 63 \<le> 2 ^ 1022" by (rule power_increasing) simp_all
  ultimately have "(2 :: rat) ^ 63 \<le> to_double a * of_int n" by linarith
  then have "2 ^ 63 \<le> to_double (to_double a * of_int n)" by (rule to_double_ge_pow2)
  then have "2 ^ 63 \<le> skip_of p n" by (simp add: skip_of_def a_def)
  then show False using assms(3) by (simp add: Int64_max_def)
qed

lemma stats_item_fields:
  "shortCode_item (stats_item s l) = shortCode l" "url_item (stats_item s l) = targetUrl l"
  "totalClicks (stats_item s l) = length (clicksOf s (id_link l))"
  by (simp_all add: stats_item_def aggregateClicks_eq)

lemma beyond_links:
  assumes "length (links s) < 2 ^ 53" and "2 ^ 53 \<le> k"
  shows "length (links s) \<le> nat k"
proof -
  have "int (length (links s)) < int (2 ^ 53)" using assms(1) by (simp only: of_nat_less_iff)
  then have "int (length (links s)) < 2 ^ 53" by simp
  then have "int (length (links s)) \<le> k" using assms(2) by linarith
  then show ?thesis by linarith
qed

lemma page_links_window:
  assumes "1 \<le> p" and "1 \<le> n" and "length (links s) < 2 ^ 53"
  shows "page_links s p n = listLinks s (nat ((p - 1) * n)) (nat n)"
proof (cases "(p - 1) * n < 2 ^ 53")
  case True
  have "\<lfloor>skip_of p n\<rfloor> = (p - 1) * n"
    unfolding skip_of_exact [OF assms(1,2) True] by (rule floor_of_int)
  then show ?thesis
    by (simp only: page_links_def)
next
  case False
  then have big: "2 ^ 53 \<le> (p - 1) * n" by simp
  with assms(3) have "length (links s) \<le> nat ((p - 1) * n)" by (rule beyond_links)
  then have 1: "listLinks s (nat ((p - 1) * n)) (nat n) = []" by (rule listLinks_beyond)
  have "2 ^ 53 \<le> skip_of p n" using assms(1,2) big by (rule skip_of_large)
  then have "(of_int (2 ^ 53) :: rat) \<le> skip_of p n" by simp
  then have "2 ^ 53 \<le> \<lfloor>skip_of p n\<rfloor>" by (simp only: le_floor_iff)
  with assms(3) have "length (links s) \<le> nat \<lfloor>skip_of p n\<rfloor>" by (rule beyond_links)
  then have "page_links s p n = []" unfolding page_links_def by (rule listLinks_beyond)
  with 1 show ?thesis by simp
qed

lemma prisma_link_count_exact:
  assumes "length (links s) < 2 ^ 53"
  shows "prisma_link_count s = of_nat (length (links s))"
proof -
  have "int (length (links s)) < int (2 ^ 53)" using assms by (simp only: of_nat_less_iff)
  then have "int (length (links s)) < 2 ^ 53" by simp
  moreover have "0 \<le> int (length (links s))" by simp
  ultimately have "to_double (of_int (int (length (links s)))) = of_int (int (length (links s)))"
    by (intro to_double_of_int)
  then show ?thesis by (simp add: prisma_link_count_def countLinks_def)
qed

lemma getStats_data:
  assumes "getStats s p n = Some (Inr r)"
  shows "data r = map (stats_item s) (page_links s p n)"
  using assms
  by (auto simp: getStats_def prisma_link_findMany_def page_links_def Let_def split: if_splits)

lemma getStats_response:
  assumes "1 \<le> p" and "1 \<le> n" and "is_Number p" and "is_Number n"
    and "skip_of p n \<le> of_int Int64_max" and "n \<le> Int64_max"
    and "length (links s) < 2 ^ 53"
  shows "getStats s p n =
     Some (Inr \<lparr>data = map (stats_item s) (page_links s p n),
                meta = \<lparr>page = p, limit = n, totalItems = int (length (links s)),
                        totalPages = \<lceil>(of_int (int (length (links s))) :: rat) / of_int n\<rceil>\<rparr>\<rparr>)"
proof -
  have g: "\<not> (p < 1 \<or> n < 1 \<or> \<not> is_Number p \<or> \<not> is_Number n \<or> 2 ^ 1023 \<le> (p - 1) * n)"
    using assms(1-4) skip_of_fits [OF assms(1,2,5)] by simp
  have f: "prisma_link_findMany s (skip_of p n) n = Inr (page_links s p n)"
    using assms(5,6) by (simp add: prisma_link_findMany_def page_links_def)
  have c: "prisma_link_count s = of_int (int (length (links s)))"
    using prisma_link_count_exact [OF assms(7)] by simp
  have "int (length (links s)) < int (2 ^ 53)" using assms(7) by (simp only: of_nat_less_iff)
  then have "int (length (links s)) < 2 ^ 53" by simp
  moreover have "0 \<le> int (length (links s))" by simp
  ultimately have t: "\<lceil>to_double (of_int (int (length (links s))) / of_int n)\<rceil> =
      \<lceil>(of_int (int (length (links s))) :: rat) / of_int n\<rceil>"
    using assms(2) by (intro Math_ceil_quotient)
  have "getStats s p n =
     Some (case prisma_link_findMany s (skip_of p n) n of
           Inl err \<Rightarrow> Inl err
         | Inr lks \<Rightarrow>
             (let total = prisma_link_count s
              in Inr \<lparr>data = map (stats_item s) lks,
                      meta = \<lparr>page = p, limit = n, totalItems = \<lfloor>total\<rfloor>,
                              totalPages = \<lceil>to_double (total / of_int n)\<rceil>\<rparr>\<rparr>))"
    unfolding getStats_def using g by (simp only: if_False)
  also have "\<dots> = Some (Inr \<lparr>data = map (stats_item s) (page_links s p n),
                meta = \<lparr>page = p, limit = n, totalItems = int (length (links s)),
                        totalPages = \<lceil>(of_int (int (length (links s))) :: rat) / of_int n\<rceil>\<rparr>\<rparr>)"
    unfolding f c Let_def t by simp
  finally show ?thesis .
qed

lemma is_Number_10_18: "is_Number 1000000000000000000"
proof -
  have "to_double (of_int 3814697265625 * 2 ^ 18) = of_int 3814697265625 * 2 ^ 18"
    by (rule to_double_scaled) simp_all
  then have "to_double (of_int 1000000000000000000) = of_int 1000000000000000000" by simp
  moreover have "\<bar>1000000000000000000 :: int\<bar> < 2 ^ 1024" by simp
  ultimately show ?thesis unfolding is_Number_def by (rule conjI [rotated])
qed

lemma skip_of_10_18: "2 ^ 63 \<le> skip_of 1000000000000000000 10"
proof -
  define a :: rat where "a = 999999999999999999"
  have a0: "0 < a" by (simp add: a_def)
  have "\<bar>to_double a - a\<bar> \<le> a / 2 ^ 53" using a0 by (rule to_double_relative_error)
  then have "a - a / 2 ^ 53 \<le> to_double a" by linarith
  moreover have "2 ^ 63 / 10 \<le> a - a / 2 ^ 53" by (simp add: a_def)
  ultimately have "2 ^ 63 / 10 \<le> to_double a" by linarith
  then have "2 ^ 63 \<le> to_double a * 10" by simp
  then have "2 ^ 63 \<le> to_double (to_double a * 10)" by (rule to_double_ge_pow2)
  then show ?thesis by (simp add: skip_of_def a_def)
qed

subsection \<open>Pages of the example stores and recorded clicks\<close>

lemma page_1_10:
  assumes "length (links s) < 2 ^ 53"
  shows "page_links s 1 10 = listLinks s 0 10"
  using page_links_window [of 1 10 s] assms by simp

lemma getStats_page_1_10:
  assumes "length (links s) = 1"
  shows "getStats s 1 10 =
     Some (Inr \<lparr>data = map (stats_item s) (listLinks s 0 10),
                meta = \<lparr>page = 1, limit = 10, totalItems = 1, totalPages = 1\<rparr>\<rparr>)"
proof -
  have l: "length (links s) < 2 ^ 53" using assms by simp
  have np: "is_Number 1" and nn: "is_Number 10" by (rule is_Number_small; simp)+
  have "skip_of 1 10 = of_int ((1 - 1) * 10)" by (rule skip_of_exact) simp_all
  then have sk: "skip_of 1 10 \<le> of_int Int64_max" by (simp add: Int64_max_def)
  have tk: "10 \<le> Int64_max" by (simp add: Int64_max_def)
  have c: "\<lceil>(1 :: rat) / 10\<rceil> = 1" by (simp add: ceiling_eq_iff)
  from getStats_response [OF _ _ np nn sk tk l]
  show ?thesis by (simp add: page_1_10 [OF l] assms c)
qed


lemma three_clicks_page:
  "getStats store_three_clicks 1 10 =
     Some (Inr \<lparr>data = [stats_item store_three_clicks (hd (links example_store))],
                meta = \<lparr>page = 1, limit = 10, totalItems = 1, totalPages = 1\<rparr>\<rparr>)"
  "page_links store_three_clicks 1 10 ! 0 = hd (links example_store)"
proof -
  have n: "length (links store_three_clicks) = 1"
    by (simp add: store_three_clicks_def example_store_def)
  have ll: "listLinks store_three_clicks 0 10 = [hd (links example_store)]"
    by (simp add: listLinks_def store_three_clicks_def example_store_def)
  show "getStats store_three_clicks 1 10 =
     Some (Inr \<lparr>data = [stats_item store_three_clicks (hd (links example_store))],
                meta = \<lparr>page = 1, limit = 10, totalItems = 1, totalPages = 1\<rparr>\<rparr>)"
    unfolding getStats_page_1_10 [OF n] ll by simp
  show "page_links store_three_clicks 1 10 ! 0 = hd (links example_store)"
    using page_1_10 [of store_three_clicks] n by (simp add: ll)
qed



lemma recordClick_keeps_credits:
  assumes "\<forall>c \<in> set (clicks (db w)). earnedCredit c = Decimal_0_05 \<or> earnedCredit c = Decimal_0_00"
  shows "\<forall>c \<in> set (clicks (db (snd (recordClick code w)))).
           earnedCredit c = Decimal_0_05 \<or> earnedCredit c = Decimal_0_00"
  using assms unfolding recordClick_clicks
  by (auto split: option.splits)


lemma getStats_window:
  assumes "getStats s p n = Some (Inr r)" and "length (links s) < 2 ^ 53"
  shows "page_links s p n = listLinks s (nat ((p - 1) * n)) (nat n)"
proof -
  have "1 \<le> p" "1 \<le> n"
    using assms(1) by (auto simp: getStats_def split: if_splits)
  then show ?thesis using assms(2) by (rule page_links_window)
qed

section \<open>Facts about createLink\<close>

lemma findUnique_targetUrl_eq:
  "prisma_link_findUnique_targetUrl url w =
     ((case failure_of (next_acts w) of Some e \<Rightarrow> Inl e
       | None \<Rightarrow> Inr (findLinkByTargetUrl (after_env w) url)),
      w\<lparr>db := after_env w, env := tl (env w), trace := trace w @ [LinkFindUniqueByTargetUrl url]\<rparr>)"
  by (simp add: prisma_link_findUnique_targetUrl_def round_trip_eq emit_def next_acts_def after_env_def
           split: option.splits)

lemma link_create_eq:
  "prisma_link_create code url w =
     (case failure_of (next_acts w) of
        Some e \<Rightarrow> (Inl e, w\<lparr>db := after_env w, env := tl (env w), trace := trace w @ [LinkCreate code url]\<rparr>)
      | None \<Rightarrow> (fst (insertLink (after_env w) (now w) code url),
                 w\<lparr>db := snd (insertLink (after_env w) (now w) code url), env := tl (env w),
                   trace := trace w @ [LinkCreate code url]\<rparr>))"
  by (simp add: prisma_link_create_def round_trip_eq emit_def next_acts_def after_env_def
           split: option.splits prod.splits)

lemma nanoid_eq:
  "nanoid w = (nanoid_src w (nanoid_calls w), w\<lparr>nanoid_calls := Suc (nanoid_calls w)\<rparr>)"
  by (simp add: nanoid_def)

lemma insertLink_short_code:
  "\<exists>l \<in> set (links s). shortCode l = code \<Longrightarrow>
     insertLink s t code url =
       (Inl (PrismaClientKnownRequestError ''P2002'' (Some [''short_code''])),
        s\<lparr>links_id_seq := Suc (links_id_seq s)\<rparr>)"
  by (simp add: insertLink_def Let_def)

lemma insertLink_target_url:
  "\<forall>l \<in> set (links s). shortCode l \<noteq> code \<Longrightarrow> \<exists>l \<in> set (links s). targetUrl l = url \<Longrightarrow>
     insertLink s t code url =
       (Inl (PrismaClientKnownRequestError ''P2002'' (Some [''target_url''])),
        s\<lparr>links_id_seq := Suc (links_id_seq s)\<rparr>)"
  by (auto simp add: insertLink_def Let_def)

lemma insertLink_fresh:
  "\<forall>l \<in> set (links s). shortCode l \<noteq> code \<Longrightarrow> \<forall>l \<in> set (links s). targetUrl l \<noteq> url \<Longrightarrow>
     insertLink s t code url =
       (Inr \<lparr>id_link = Suc (links_id_seq s), shortCode = code, targetUrl = url, createdAt = t\<rparr>,
        s\<lparr>links_id_seq := Suc (links_id_seq s),
          links := links s @ [\<lparr>id_link = Suc (links_id_seq s), shortCode = code, targetUrl = url, createdAt = t\<rparr>]\<rparr>)"
  by (auto simp add: insertLink_def Let_def)

lemma is_P2002_simps [simp]:
  "is_P2002 (PrismaClientKnownRequestError c t) = (c = ''P2002'')"
  "is_P2002 (OtherFailure m) = False" "is_P2002 (NotFoundException m) = False" "is_P2002 (Error m) = False"
  by (simp_all add: is_P2002_def)

lemma target_includes_simps [simp]:
  "target_includes (PrismaClientKnownRequestError c (Some t)) col = (col \<in> set t)"
  "target_includes (PrismaClientKnownRequestError c None) col = False"
  "target_includes (OtherFailure m) col = False" "target_includes (NotFoundException m) col = False"
  "target_includes (Error m) col = False"
  by (simp_all add: target_includes_def)

text \<open>One attempt of the loop, by what the insert meets.\<close>

lemma loop_exhausted:
  "\<not> a < maxRetries \<Longrightarrow>
     createLink_loop a url w = (Inl (Error ''Failed to generate unique short code after retries''), w)"
  by (subst createLink_loop.simps) simp

lemma loop_insert_fails:
  assumes "a < maxRetries" and "failure_of (next_acts w) = Some e" and "\<not> is_P2002 e"
  shows "createLink_loop a url w =
           (Inl e, w\<lparr>nanoid_calls := Suc (nanoid_calls w), db := after_env w, env := tl (env w),
                      trace := trace w @ [LinkCreate (nanoid_src w (nanoid_calls w)) url]\<rparr>)"
  using assms
  by (subst createLink_loop.simps) (simp add: nanoid_eq link_create_eq next_acts_def after_env_def)

lemma loop_created:
  assumes "a < maxRetries" and "failure_of (next_acts w) = None"
    and "\<forall>l \<in> set (links (after_env w)). shortCode l \<noteq> nanoid_src w (nanoid_calls w)"
    and "\<forall>l \<in> set (links (after_env w)). targetUrl l \<noteq> url"
  shows "createLink_loop a url w =
           (Inr \<lparr>code_of = nanoid_src w (nanoid_calls w), url_of = url, isNew = True\<rparr>,
            w\<lparr>nanoid_calls := Suc (nanoid_calls w),
              db := snd (insertLink (after_env w) (now w) (nanoid_src w (nanoid_calls w)) url),
              env := tl (env w),
              trace := trace w @ [LinkCreate (nanoid_src w (nanoid_calls w)) url,
                Logged ''LinksService'' LOG
                  (''New link created: '' @ nanoid_src w (nanoid_calls w) @ '' -> '' @ url)]\<rparr>)"
  using assms
  by (subst createLink_loop.simps)
     (simp add: nanoid_eq link_create_eq next_acts_def after_env_def insertLink_fresh logger_def emit_def)

lemma loop_collision:
  assumes "a < maxRetries" and "failure_of (next_acts w) = None"
    and "\<exists>l \<in> set (links (after_env w)). shortCode l = nanoid_src w (nanoid_calls w)"
  shows "createLink_loop a url w =
           (let w4 = w\<lparr>nanoid_calls := Suc (nanoid_calls w),
                        db := (after_env w)\<lparr>links_id_seq := Suc (links_id_seq (after_env w))\<rparr>,
                        env := tl (env w),
                        trace := trace w @ [LinkCreate (nanoid_src w (nanoid_calls w)) url,
                          Logged ''LinksService'' WARN
                            (''Short code collision on attempt '' @ digits (a + 1) @ ''/'' @
                             digits maxRetries)]\<rparr>
            in if a = maxRetries - 1
               then (Inl (PrismaClientKnownRequestError ''P2002'' (Some [''short_code''])), w4)
               else createLink_loop (a + 1) url w4)"
  using assms
  by (subst createLink_loop.simps)
     (simp add: nanoid_eq link_create_eq next_acts_def after_env_def insertLink_short_code logger_def
        emit_def Let_def)

lemma loop_trace:
  "\<exists>es. trace (snd (createLink_loop a url w)) = trace w @ es \<and>
        length (filter is_LinkCreate es) \<le> maxRetries - a"
proof (induction "maxRetries - a" arbitrary: a w)
  case 0
  then have "\<not> a < maxRetries" by simp
  then show ?case by (simp add: loop_exhausted)
next
  case (Suc k)
  then have a: "a < maxRetries" and k: "k = maxRetries - (a + 1)" by simp_all
  define code where "code = nanoid_src w (nanoid_calls w)"
  define w1 where "w1 = w\<lparr>nanoid_calls := Suc (nanoid_calls w)\<rparr>"
  obtain r w2 where c: "prisma_link_create code url w1 = (r, w2)" by force
  have t2: "trace w2 = trace w @ [LinkCreate code url]"
    using c by (auto simp: link_create_eq w1_def split: option.splits)
  have unfold: "createLink_loop a url w =
     (case r of
        Inr l \<Rightarrow>
          (Inr \<lparr>code_of = shortCode l, url_of = targetUrl l, isNew = True\<rparr>,
           logger ''LinksService'' LOG (''New link created: '' @ shortCode l @ '' -> '' @ url) w2)
      | Inl err \<Rightarrow>
          if is_P2002 err then
            (let (found, w3) =
                   (if target_includes err ''target_url''
                    then prisma_link_findUnique_targetUrl url w2
                    else (Inr None, w2))
             in case found of
                  Inl err' \<Rightarrow> (Inl err', w3)
                | Inr (Some existing) \<Rightarrow>
                    (Inr \<lparr>code_of = shortCode existing, url_of = targetUrl existing, isNew = False\<rparr>,
                     logger ''LinksService'' LOG
                       (''Existing link found (race condition) for URL: '' @ url @ '' -> '' @
                        shortCode existing) w3)
                | Inr None \<Rightarrow>
                    (let w4 = logger ''LinksService'' WARN
                                (''Short code collision on attempt '' @ digits (a + 1) @
                                 ''/'' @ digits maxRetries) w3
                     in if a = maxRetries - 1 then (Inl err, w4)
                        else createLink_loop (a + 1) url w4))
          else (Inl err, w2))"
    using a by (subst createLink_loop.simps) (simp add: nanoid_eq c code_def [symmetric] w1_def [symmetric])
  show ?case
  proof (cases r)
    case (Inr l)
    then show ?thesis using a by (simp add: unfold t2)
  next
    case (Inl err)
    show ?thesis
    proof (cases "is_P2002 err")
      case False
      then show ?thesis using a by (simp add: unfold Inl t2)
    next
      case True
      obtain found w3 where f: "(if target_includes err ''target_url''
                    then prisma_link_findUnique_targetUrl url w2
                    else (Inr None, w2)) = (found, w3)" by force
      have "\<exists>es3. trace w3 = trace w2 @ es3 \<and> filter is_LinkCreate es3 = []"
        using f by (auto simp: findUnique_targetUrl_eq split: if_splits)
      then obtain es3 where t3: "trace w3 = trace w @ LinkCreate code url # es3"
        and n3: "filter is_LinkCreate es3 = []"
        using t2 by auto
      show ?thesis
      proof (cases found)
        case err': (Inl e')
        then show ?thesis using a by (simp add: unfold Inl True f t3 n3)
      next
        case (Inr opt)
        show ?thesis
        proof (cases opt)
          case (Some existing)
          then show ?thesis using a by (simp add: unfold Inl True f Inr t3 n3)
        next
          case None
          define w4 where "w4 = logger ''LinksService'' WARN
                                (''Short code collision on attempt '' @ digits (a + 1) @
                                 ''/'' @ digits maxRetries) w3"
          have t4: "trace w4 = trace w @ LinkCreate code url # es3 @
                      [Logged ''LinksService'' WARN (''Short code collision on attempt '' @ digits (a + 1) @
                                 ''/'' @ digits maxRetries)]"
            by (simp add: w4_def t3)
          have step: "createLink_loop a url w =
                  (if a = maxRetries - 1 then (Inl err, w4) else createLink_loop (a + 1) url w4)"
            unfolding unfold w4_def by (simp add: Inl True f Inr None Let_def)
          show ?thesis
          proof (cases "a = maxRetries - 1")
            case last: True
            have "createLink_loop a url w = (Inl err, w4)"
              by (subst step) (use last in simp)
            then show ?thesis
              using a by (simp add: t4 n3)
          next
            case False
            from Suc.hyps(1) [OF k, of w4] obtain es where
              es: "trace (snd (createLink_loop (a + 1) url w4)) = trace w4 @ es"
                  "length (filter is_LinkCreate es) \<le> maxRetries - (a + 1)" by blast
            have "createLink_loop a url w = createLink_loop (a + 1) url w4"
              by (subst step) (use False in simp)
            then show ?thesis
              using es a by (simp add: t4 n3)
          qed
        qed
      qed
    qed
  qed
qed

lemma createLink_trace:
  "\<exists>es. trace (snd (createLink url w)) = trace w @ es \<and>
        length (filter is_LinkCreate es) \<le> maxRetries"
proof -
  define w1 where "w1 = w\<lparr>db := after_env w, env := tl (env w), trace := trace w @ [LinkFindUniqueByTargetUrl url]\<rparr>"
  from loop_trace [of 0 url w1] obtain es where
    es: "trace (snd (createLink_loop 0 url w1)) = trace w1 @ es"
        "length (filter is_LinkCreate es) \<le> maxRetries" by auto
  show ?thesis
    unfolding createLink_def findUnique_targetUrl_eq w1_def [symmetric]
    using es by (auto simp: w1_def split: option.splits)
qed

lemma findLinkByTargetUrl_None: "findLinkByTargetUrl s url = None \<longleftrightarrow> (\<forall>l \<in> set (links s). targetUrl l \<noteq> url)"
  by (auto simp: findLinkByTargetUrl_def find_None_iff)

lemma quiet_simps:
  "env w = [] \<Longrightarrow> next_acts w = []" "env w = [] \<Longrightarrow> after_env w = db w"
  by (simp_all add: next_acts_def after_env_def)

lemma collided_simps [simp]:
  "env (collided w es k) = env w" "nanoid_src (collided w es k) = nanoid_src w"
  "nanoid_calls (collided w es k) = nanoid_calls w + k" "now (collided w es k) = now w"
  "links (db (collided w es k)) = links (db w)" "trace (collided w es k) = trace w @ es"
  "links_id_seq (db (collided w es k)) = links_id_seq (db w) + k"
  "clicks (db (collided w es k)) = clicks (db w)"
  by (simp_all add: collided_def)

lemma quiet_collision:
  assumes "env w = []" and "a < maxRetries"
    and "\<exists>l \<in> set (links (db w)). shortCode l = nanoid_src w (nanoid_calls w + k)"
  shows "createLink_loop a url (collided w es k) =
           (if a = maxRetries - 1
            then (Inl (PrismaClientKnownRequestError ''P2002'' (Some [''short_code''])),
                  collided w (es @ [LinkCreate (nanoid_src w (nanoid_calls w + k)) url,
                          Logged ''LinksService'' WARN
                            (''Short code collision on attempt '' @ digits (a + 1) @ ''/'' @
                             digits maxRetries)]) (Suc k))
            else createLink_loop (a + 1) url
                   (collided w (es @ [LinkCreate (nanoid_src w (nanoid_calls w + k)) url,
                          Logged ''LinksService'' WARN
                            (''Short code collision on attempt '' @ digits (a + 1) @ ''/'' @
                             digits maxRetries)]) (Suc k)))"
proof -
  have q: "env (collided w es k) = []" using assms(1) by simp
  have A: "createLink_loop a url (collided w es k) = 
           (let w4 = (collided w es k)\<lparr>nanoid_calls := Suc (nanoid_calls (collided w es k)),
                        db := (after_env (collided w es k))\<lparr>links_id_seq := Suc (links_id_seq (after_env (collided w es k)))\<rparr>,
                        env := tl (env (collided w es k)),
                        trace := trace (collided w es k) @ [LinkCreate (nanoid_src (collided w es k) (nanoid_calls (collided w es k))) url,
                          Logged ''LinksService'' WARN
                            (''Short code collision on attempt '' @ digits (a + 1) @ ''/'' @
                             digits maxRetries)]\<rparr>
            in if a = maxRetries - 1
               then (Inl (PrismaClientKnownRequestError ''P2002'' (Some [''short_code''])), w4)
               else createLink_loop (a + 1) url w4)"
    using assms(2,3) by (intro loop_collision) (simp_all add: quiet_simps [OF q])
  have B: "(collided w es k)\<lparr>nanoid_calls := Suc (nanoid_calls (collided w es k)),
                        db := (after_env (collided w es k))\<lparr>links_id_seq := Suc (links_id_seq (after_env (collided w es k)))\<rparr>,
                        env := tl (env (collided w es k)),
                        trace := trace (collided w es k) @ [LinkCreate (nanoid_src (collided w es k) (nanoid_calls (collided w es k))) url,
                          Logged ''LinksService'' WARN
                            (''Short code collision on attempt '' @ digits (a + 1) @ ''/'' @
                             digits maxRetries)]\<rparr> =
      collided w (es @ [LinkCreate (nanoid_src w (nanoid_calls w + k)) url,
                          Logged ''LinksService'' WARN
                            (''Short code collision on attempt '' @ digits (a + 1) @ ''/'' @
                             digits maxRetries)]) (Suc k)"
    using assms(1) by (simp add: quiet_simps [OF q]) (simp add: collided_def)
  show ?thesis by (simp only: A Let_def B)
qed

lemma quiet_created:
  assumes "env w = []" and "a < maxRetries"
    and "\<forall>l \<in> set (links (db w)). shortCode l \<noteq> nanoid_src w (nanoid_calls w + k)"
    and "\<forall>l \<in> set (links (db w)). targetUrl l \<noteq> url"
  shows "fst (createLink_loop a url (collided w es k)) =
           Inr \<lparr>code_of = nanoid_src w (nanoid_calls w + k), url_of = url, isNew = True\<rparr>"
    and "trace (snd (createLink_loop a url (collided w es k))) =
           trace w @ es @ [LinkCreate (nanoid_src w (nanoid_calls w + k)) url,
                Logged ''LinksService'' LOG
                  (''New link created: '' @ nanoid_src w (nanoid_calls w + k) @ '' -> '' @ url)]"
    and "links (db (snd (createLink_loop a url (collided w es k)))) =
           links (db w) @ [\<lparr>id_link = Suc (links_id_seq (db w) + k),
                             shortCode = nanoid_src w (nanoid_calls w + k),
                             targetUrl = url, createdAt = now w\<rparr>]"
proof -
  have q: "env (collided w es k) = []" using assms(1) by simp
  have e: "createLink_loop a url (collided w es k) =
           (Inr \<lparr>code_of = nanoid_src (collided w es k) (nanoid_calls (collided w es k)), url_of = url, isNew = True\<rparr>,
            (collided w es k)\<lparr>nanoid_calls := Suc (nanoid_calls (collided w es k)),
              db := snd (insertLink (after_env (collided w es k)) (now (collided w es k)) (nanoid_src (collided w es k) (nanoid_calls (collided w es k))) url),
              env := tl (env (collided w es k)),
              trace := trace (collided w es k) @ [LinkCreate (nanoid_src (collided w es k) (nanoid_calls (collided w es k))) url,
                Logged ''LinksService'' LOG
                  (''New link created: '' @ nanoid_src (collided w es k) (nanoid_calls (collided w es k)) @ '' -> '' @ url)]\<rparr>)"
    using assms(2,3,4) by (intro loop_created) (simp_all add: quiet_simps [OF q])
  show "fst (createLink_loop a url (collided w es k)) =
           Inr \<lparr>code_of = nanoid_src w (nanoid_calls w + k), url_of = url, isNew = True\<rparr>"
    by (simp add: e)
  show "trace (snd (createLink_loop a url (collided w es k))) =
           trace w @ es @ [LinkCreate (nanoid_src w (nanoid_calls w + k)) url,
                Logged ''LinksService'' LOG
                  (''New link created: '' @ nanoid_src w (nanoid_calls w + k) @ '' -> '' @ url)]"
    by (simp add: e)
  show "links (db (snd (createLink_loop a url (collided w es k)))) =
           links (db w) @ [\<lparr>id_link = Suc (links_id_seq (db w) + k),
                             shortCode = nanoid_src w (nanoid_calls w + k),
                             targetUrl = url, createdAt = now w\<rparr>]"
    using assms(3,4) by (simp add: e quiet_simps [OF q] insertLink_fresh)
qed

lemma createLink_quiet_absent:
  assumes "env w = []" and "\<forall>l \<in> set (links (db w)). targetUrl l \<noteq> url"
  shows "createLink url w = createLink_loop 0 url (collided w [LinkFindUniqueByTargetUrl url] 0)"
proof -
  have "findLinkByTargetUrl (db w) url = None" using assms(2) by (simp add: findLinkByTargetUrl_None)
  moreover have "w\<lparr>db := db w, env := tl (env w), trace := trace w @ [LinkFindUniqueByTargetUrl url]\<rparr> =
                 collided w [LinkFindUniqueByTargetUrl url] 0"
    using assms(1) by (simp add: collided_def)
  ultimately show ?thesis
    using assms(1) by (simp add: createLink_def findUnique_targetUrl_eq quiet_simps)
qed

lemma filter_LinkCreate_simps [simp]:
  "is_LinkCreate (LinkFindUniqueByTargetUrl u) = False"
  "is_LinkCreate (Logged c lv m) = False"
  by simp_all

lemma find_append_Some: "find P xs = Some x \<Longrightarrow> find P (xs @ ys) = Some x"
  by (induction xs) (auto split: if_splits)

lemma find_append_None: "find P xs = None \<Longrightarrow> find P (xs @ ys) = find P ys"
  by (induction xs) (auto split: if_splits)

lemma insertLink_links:
  "links (snd (insertLink s t code url)) = links s \<or>
   (links (snd (insertLink s t code url)) =
      links s @ [\<lparr>id_link = Suc (links_id_seq s), shortCode = code, targetUrl = url, createdAt = t\<rparr>]
    \<and> (\<forall>l \<in> set (links s). shortCode l \<noteq> code) \<and> (\<forall>l \<in> set (links s). targetUrl l \<noteq> url))"
  by (auto simp: insertLink_def Let_def)

lemma insertLink_keeps_targetUrl:
  "findLinkByTargetUrl s url = Some l \<Longrightarrow> findLinkByTargetUrl (snd (insertLink s t c u)) url = Some l"
  using insertLink_links [of s t c u]
  by (auto simp: findLinkByTargetUrl_def find_append_Some)

lemma concurrent_keeps_targetUrl:
  "findLinkByTargetUrl s url = Some l \<Longrightarrow> findLinkByTargetUrl (fold (concurrent t) acts s) url = Some l"
proof (induction acts arbitrary: s)
  case Nil
  then show ?case by simp
next
  case (Cons a acts)
  have "findLinkByTargetUrl (concurrent t a s) url = Some l"
    using Cons.prems by (cases a) (simp_all add: insertLink_keeps_targetUrl)
  then show ?case using Cons.IH by simp
qed

lemma findLinkByTargetUrl_seq [simp]:
  "findLinkByTargetUrl (s\<lparr>links_id_seq := k\<rparr>) url = findLinkByTargetUrl s url"
  by (simp add: findLinkByTargetUrl_def)

lemma findLinkByTargetUrl_Some:
  "findLinkByTargetUrl s url = Some l \<Longrightarrow> targetUrl l = url \<and> l \<in> set (links s)"
  by (auto simp: findLinkByTargetUrl_def find_Some_iff)

lemma after_env_tl: "after_env (w\<lparr>env := tl (env w)\<rparr>) = fold (concurrent (now w)) (acts_at w 1) (db w)"
  using next_acts_tl [of w] by (simp add: after_env_def)

text \<open>An attempt whose insert meets a link of the same target, created meanwhile.\<close>

lemma loop_race:
  assumes a: "a < maxRetries" and ok: "failure_of (acts_at w 0) = None"
    and fresh: "\<forall>l \<in> set (links (after_env w)). shortCode l \<noteq> nanoid_src w (nanoid_calls w)"
    and found: "findLinkByTargetUrl (after_env w) url = Some l"
    and ok': "failure_of (acts_at w 1) = None"
  shows "fst (createLink_loop a url w) =
           Inr \<lparr>code_of = shortCode l, url_of = url, isNew = False\<rparr>"
    and "trace (snd (createLink_loop a url w)) =
           trace w @ [LinkCreate (nanoid_src w (nanoid_calls w)) url, LinkFindUniqueByTargetUrl url,
             Logged ''LinksService'' LOG
               (''Existing link found (race condition) for URL: '' @ url @ '' -> '' @ shortCode l)]"
proof -
  define code where "code = nanoid_src w (nanoid_calls w)"
  define w1 where "w1 = w\<lparr>nanoid_calls := Suc (nanoid_calls w)\<rparr>"
  define S where "S = after_env w"
  define err where "err = PrismaClientKnownRequestError ''P2002'' (Some [''target_url''])"
  define w2 where "w2 = w1\<lparr>db := S\<lparr>links_id_seq := Suc (links_id_seq S)\<rparr>, env := tl (env w1),
                     trace := trace w1 @ [LinkCreate code url]\<rparr>"
  have tu: "targetUrl l = url" "l \<in> set (links S)"
    using findLinkByTargetUrl_Some [OF found] by (simp_all add: S_def)
  have ex: "\<exists>l \<in> set (links S). targetUrl l = url" using tu by blast
  have n1: "next_acts w1 = acts_at w 0" "after_env w1 = S" "now w1 = now w"
    by (simp_all add: w1_def next_acts_at [symmetric] next_acts_def after_env_def S_def)
  have ins: "insertLink S (now w) code url = (Inl err, S\<lparr>links_id_seq := Suc (links_id_seq S)\<rparr>)"
    unfolding err_def using fresh ex by (intro insertLink_target_url) (simp_all add: S_def code_def)
  have c: "prisma_link_create code url w1 = (Inl err, w2)"
    by (simp add: link_create_eq n1 ok ins w2_def)
  have e2: "env w2 = tl (env w)" "now w2 = now w" "db w2 = S\<lparr>links_id_seq := Suc (links_id_seq S)\<rparr>"
    "trace w2 = trace w @ [LinkCreate code url]"
    by (simp_all add: w2_def w1_def)
  have na2: "next_acts w2 = acts_at w 1"
    using next_acts_tl [of w] by (simp add: next_acts_def e2)
  define S2 where "S2 = after_env w2"
  have S2: "S2 = fold (concurrent (now w)) (acts_at w 1) (S\<lparr>links_id_seq := Suc (links_id_seq S)\<rparr>)"
    by (simp add: S2_def after_env_def na2 e2)
  have f2: "findLinkByTargetUrl S2 url = Some l"
    unfolding S2 using found by (intro concurrent_keeps_targetUrl) (simp add: S_def)
  define w3 where "w3 = w2\<lparr>db := S2, env := tl (env w2), trace := trace w2 @ [LinkFindUniqueByTargetUrl url]\<rparr>"
  have f: "prisma_link_findUnique_targetUrl url w2 = (Inr (Some l), w3)"
    using ok' by (simp add: findUnique_targetUrl_eq na2 f2 S2_def [symmetric] w3_def)
  have res: "createLink_loop a url w =
          (Inr \<lparr>code_of = shortCode l, url_of = targetUrl l, isNew = False\<rparr>,
           logger ''LinksService'' LOG
             (''Existing link found (race condition) for URL: '' @ url @ '' -> '' @ shortCode l) w3)"
    using a by (subst createLink_loop.simps)
      (simp add: nanoid_eq code_def [symmetric] w1_def [symmetric] c err_def [symmetric] f,
       simp add: err_def)
  show "fst (createLink_loop a url w) = Inr \<lparr>code_of = shortCode l, url_of = url, isNew = False\<rparr>"
    by (simp add: res tu)
  show "trace (snd (createLink_loop a url w)) =
           trace w @ [LinkCreate (nanoid_src w (nanoid_calls w)) url, LinkFindUniqueByTargetUrl url,
             Logged ''LinksService'' LOG
               (''Existing link found (race condition) for URL: '' @ url @ '' -> '' @ shortCode l)]"
    by (simp add: res w3_def e2 code_def)
qed

lemma acts_at_tl: "acts_at (w\<lparr>env := tl (env w)\<rparr>) k = acts_at w (Suc k)"
  by (cases "env w") (auto simp: acts_at_def)

lemma fold_concurrent_inv:
  assumes "\<And>s t c u. P s \<Longrightarrow> P (snd (insertLink s t c u))" and "P s"
  shows "P (fold (concurrent t) acts s)"
  using assms(2)
proof (induction acts arbitrary: s)
  case Nil
  then show ?case by simp
next
  case (Cons a acts)
  have "P (concurrent t a s)" using Cons.prems assms(1) by (cases a) simp_all
  then show ?case using Cons.IH by simp
qed

lemma after_env_inv:
  assumes "\<And>s t c u. P s \<Longrightarrow> P (snd (insertLink s t c u))" and "P (db w)"
  shows "P (after_env w)"
  unfolding after_env_def using assms by (rule fold_concurrent_inv)

lemma insertLink_Inr:
  assumes "fst (insertLink s t code url) = Inr l"
  shows "findLinkByTargetUrl (snd (insertLink s t code url)) url = Some l"
    and "shortCode l = code" and "targetUrl l = url"
proof -
  have fresh: "\<forall>x \<in> set (links s). targetUrl x \<noteq> url" "\<forall>x \<in> set (links s). shortCode x \<noteq> code"
    using assms by (auto simp: insertLink_def Let_def split: if_splits)
  then have l: "l = \<lparr>id_link = Suc (links_id_seq s), shortCode = code, targetUrl = url, createdAt = t\<rparr>"
    using assms by (simp add: insertLink_fresh)
  have "find (\<lambda>x. targetUrl x = url) (links s) = None"
    using fresh(1) by (simp add: find_None_iff)
  then show "findLinkByTargetUrl (snd (insertLink s t code url)) url = Some l"
    using fresh by (simp add: insertLink_fresh findLinkByTargetUrl_def find_append_None l)
  show "shortCode l = code" "targetUrl l = url" by (simp_all add: l)
qed

lemma loop_unfold:
  assumes "a < maxRetries"
    and "prisma_link_create (nanoid_src w (nanoid_calls w)) url (w\<lparr>nanoid_calls := Suc (nanoid_calls w)\<rparr>) = (r, w2)"
  shows "createLink_loop a url w =
     (case r of
        Inr l \<Rightarrow>
          (Inr \<lparr>code_of = shortCode l, url_of = targetUrl l, isNew = True\<rparr>,
           logger ''LinksService'' LOG (''New link created: '' @ shortCode l @ '' -> '' @ url) w2)
      | Inl err \<Rightarrow>
          if is_P2002 err then
            (let (found, w3) =
                   (if target_includes err ''target_url''
                    then prisma_link_findUnique_targetUrl url w2
                    else (Inr None, w2))
             in case found of
                  Inl err' \<Rightarrow> (Inl err', w3)
                | Inr (Some existing) \<Rightarrow>
                    (Inr \<lparr>code_of = shortCode existing, url_of = targetUrl existing, isNew = False\<rparr>,
                     logger ''LinksService'' LOG
                       (''Existing link found (race condition) for URL: '' @ url @ '' -> '' @
                        shortCode existing) w3)
                | Inr None \<Rightarrow>
                    (let w4 = logger ''LinksService'' WARN
                                (''Short code collision on attempt '' @ digits (a + 1) @
                                 ''/'' @ digits maxRetries) w3
                     in if a = maxRetries - 1 then (Inl err, w4)
                        else createLink_loop (a + 1) url w4))
          else (Inl err, w2))"
  using assms by (subst createLink_loop.simps) (simp add: nanoid_eq)

lemma loop_post:
  assumes inv: "\<And>s t c u. P s \<Longrightarrow> P (snd (insertLink s t c u))"
  shows "P (db w) \<Longrightarrow>
         P (db (snd (createLink_loop a url w))) \<and>
         (\<forall>c. fst (createLink_loop a url w) = Inr c \<longrightarrow>
              url_of c = url \<and>
              (\<exists>l. findLinkByTargetUrl (db (snd (createLink_loop a url w))) url = Some l \<and>
                   shortCode l = code_of c))"
proof (induction "maxRetries - a" arbitrary: a w)
  case 0
  then have "\<not> a < maxRetries" by simp
  then show ?case using "0.prems" by (simp add: loop_exhausted)
next
  case (Suc k)
  then have a: "a < maxRetries" and k: "k = maxRetries - (a + 1)" by simp_all
  define code where "code = nanoid_src w (nanoid_calls w)"
  define w1 where "w1 = w\<lparr>nanoid_calls := Suc (nanoid_calls w)\<rparr>"
  obtain r w2 where c: "prisma_link_create code url w1 = (r, w2)" by force
  note unfold = loop_unfold [OF a c [unfolded code_def w1_def]]
  have P1: "P (after_env w1)"
    using inv Suc.prems by (intro after_env_inv [of P]) (simp_all add: w1_def)
  have "db w2 = after_env w1 \<or> db w2 = snd (insertLink (after_env w1) (now w1) code url)"
    using c by (auto simp: link_create_eq split: option.splits)
  then have P2: "P (db w2)"
    using P1 inv [OF P1, of "now w1" code url] by auto
  show ?case
  proof (cases r)
    case (Inr l)
    have ok: "failure_of (next_acts w1) = None"
      using c Inr by (auto simp: link_create_eq split: option.splits)
    have i: "fst (insertLink (after_env w1) (now w1) code url) = Inr l"
      and d2: "db w2 = snd (insertLink (after_env w1) (now w1) code url)"
      using c Inr ok by (auto simp: link_create_eq)
    from insertLink_Inr [OF i] show ?thesis
      using P2 by (simp add: unfold Inr d2)
  next
    case (Inl err)
    show ?thesis
    proof (cases "is_P2002 err")
      case False
      then show ?thesis using P2 by (simp add: unfold Inl)
    next
      case True
      obtain found w3 where f: "(if target_includes err ''target_url''
                    then prisma_link_findUnique_targetUrl url w2
                    else (Inr None, w2)) = (found, w3)" by force
      have P3: "P (db w3)"
        using f P2 after_env_inv [of P w2, OF inv]
        by (auto simp: findUnique_targetUrl_eq split: if_splits)
      show ?thesis
      proof (cases found)
        case err': (Inl e')
        then show ?thesis using P3 by (simp add: unfold Inl True f)
      next
        case (Inr opt)
        show ?thesis
        proof (cases opt)
          case (Some existing)
          have "findLinkByTargetUrl (db w3) url = Some existing"
            using f Inr Some by (auto simp: findUnique_targetUrl_eq split: if_splits option.splits)
          then show ?thesis
            using P3 findLinkByTargetUrl_Some [of "db w3" url existing]
            by (simp add: unfold Inl True f Inr Some)
        next
          case None
          define w4 where "w4 = logger ''LinksService'' WARN
                                (''Short code collision on attempt '' @ digits (a + 1) @
                                 ''/'' @ digits maxRetries) w3"
          have P4: "P (db w4)" using P3 by (simp add: w4_def)
          have step: "createLink_loop a url w =
                  (if a = maxRetries - 1 then (Inl err, w4) else createLink_loop (a + 1) url w4)"
            unfolding unfold w4_def by (simp add: Inl True f Inr None Let_def)
          show ?thesis
          proof (cases "a = maxRetries - 1")
            case last: True
            have "createLink_loop a url w = (Inl err, w4)"
              by (subst step) (use last in simp)
            then show ?thesis using P4 by simp
          next
            case False
            have "createLink_loop a url w = createLink_loop (a + 1) url w4"
              by (subst step) (use False in simp)
            then show ?thesis
              using Suc.hyps(1) [OF k P4] by simp
          qed
        qed
      qed
    qed
  qed
qed

lemma createLink_post:
  assumes inv: "\<And>s t c u. P s \<Longrightarrow> P (snd (insertLink s t c u))" and P: "P (db w)"
  shows "P (db (snd (createLink url w)))"
    and "fst (createLink url w) = Inr c \<Longrightarrow>
           url_of c = url \<and>
           (\<exists>l. findLinkByTargetUrl (db (snd (createLink url w))) url = Some l \<and> shortCode l = code_of c)"
proof -
  define w1 where "w1 = w\<lparr>db := after_env w, env := tl (env w), trace := trace w @ [LinkFindUniqueByTargetUrl url]\<rparr>"
  have P1: "P (db w1)" using after_env_inv [of P w, OF inv P] by (simp add: w1_def)
  note lp = loop_post [of P w1 0 url, OF inv P1]
  have e: "createLink url w =
     (case (case failure_of (next_acts w) of None \<Rightarrow> Inr (findLinkByTargetUrl (after_env w) url) | Some e \<Rightarrow> Inl e) of
           Inl err \<Rightarrow> (Inl err, w1)
         | Inr (Some existing) \<Rightarrow>
             (Inr \<lparr>code_of = shortCode existing, url_of = targetUrl existing, isNew = False\<rparr>,
              logger ''LinksService'' LOG
                (''Existing link found for URL: '' @ url @ '' -> '' @ shortCode existing) w1)
         | Inr None \<Rightarrow> createLink_loop 0 url w1)"
    unfolding createLink_def findUnique_targetUrl_eq Let_def prod.case w1_def [symmetric]
    by (rule refl)
  show "P (db (snd (createLink url w)))"
    using P1 lp by (auto simp: e split: option.splits)
  show "url_of c = url \<and>
           (\<exists>l. findLinkByTargetUrl (db (snd (createLink url w))) url = Some l \<and> shortCode l = code_of c)"
    if "fst (createLink url w) = Inr c"
    using that lp findLinkByTargetUrl_Some [of "after_env w" url]
    by (auto simp: e w1_def split: option.splits)
qed

lemma createLink_existing:
  assumes "failure_of (acts_at w 0) = None" and "findLinkByTargetUrl (after_env w) url = Some l"
  shows "createLink url w =
           (Inr \<lparr>code_of = shortCode l, url_of = url, isNew = False\<rparr>,
            w\<lparr>db := after_env w, env := tl (env w),
              trace := trace w @ [LinkFindUniqueByTargetUrl url,
                Logged ''LinksService'' LOG
                  (''Existing link found for URL: '' @ url @ '' -> '' @ shortCode l)]\<rparr>)"
  using assms findLinkByTargetUrl_Some [OF assms(2)]
  by (simp add: createLink_def findUnique_targetUrl_eq next_acts_at logger_def emit_def)

lemma insertLink_distinct_targetUrl:
  "distinct (map targetUrl (links s)) \<Longrightarrow> distinct (map targetUrl (links (snd (insertLink s t c u))))"
  using insertLink_links [of s t c u] by auto

lemma insertLink_distinct_shortCode:
  "distinct (map shortCode (links s)) \<Longrightarrow> distinct (map shortCode (links (snd (insertLink s t c u))))"
  using insertLink_links [of s t c u] by auto

lemma after_env_keeps_targetUrl:
  "findLinkByTargetUrl (db w) url = Some l \<Longrightarrow> findLinkByTargetUrl (after_env w) url = Some l"
  unfolding after_env_def by (rule concurrent_keeps_targetUrl)

lemma createLink_example_fresh:
  "fst (createLink ''https://fiverr.com/new'' example_world_fresh) =
     Inr \<lparr>code_of = ''new12345'', url_of = ''https://fiverr.com/new'', isNew = True\<rparr>"
  "env (snd (createLink ''https://fiverr.com/new'' example_world_fresh)) = []"
proof -
  have q: "env example_world_fresh = []"
    by (simp add: example_world_fresh_def example_world_def)
  have absent: "\<forall>l \<in> set (links (db example_world_fresh)). targetUrl l \<noteq> ''https://fiverr.com/new''"
    by (simp add: example_world_fresh_def example_world_def example_store_def)
  have fresh: "\<forall>l \<in> set (links (db example_world_fresh)).
      shortCode l \<noteq> nanoid_src example_world_fresh (nanoid_calls example_world_fresh + 0)"
    by (simp add: example_world_fresh_def example_world_def example_store_def)
  have a: "0 < maxRetries" by (simp add: maxRetries_def)
  have n: "nanoid_src example_world_fresh (nanoid_calls example_world_fresh + 0) = ''new12345''"
    by (simp add: example_world_fresh_def example_world_def)
  show "fst (createLink ''https://fiverr.com/new'' example_world_fresh) =
     Inr \<lparr>code_of = ''new12345'', url_of = ''https://fiverr.com/new'', isNew = True\<rparr>"
    unfolding createLink_quiet_absent [OF q absent]
    using quiet_created(1) [OF q a fresh absent] by (simp only: n)
  have "createLink_loop 0 ''https://fiverr.com/new''
          (collided example_world_fresh [LinkFindUniqueByTargetUrl ''https://fiverr.com/new''] 0) =
        (Inr \<lparr>code_of = nanoid_src (collided example_world_fresh [LinkFindUniqueByTargetUrl ''https://fiverr.com/new''] 0)
                 (nanoid_calls (collided example_world_fresh [LinkFindUniqueByTargetUrl ''https://fiverr.com/new''] 0)),
               url_of = ''https://fiverr.com/new'', isNew = True\<rparr>,
         (collided example_world_fresh [LinkFindUniqueByTargetUrl ''https://fiverr.com/new''] 0)
           \<lparr>nanoid_calls := Suc (nanoid_calls (collided example_world_fresh [LinkFindUniqueByTargetUrl ''https://fiverr.com/new''] 0)),
            db := snd (insertLink (after_env (collided example_world_fresh [LinkFindUniqueByTargetUrl ''https://fiverr.com/new''] 0))
                    (now (collided example_world_fresh [LinkFindUniqueByTargetUrl ''https://fiverr.com/new''] 0))
                    (nanoid_src (collided example_world_fresh [LinkFindUniqueByTargetUrl ''https://fiverr.com/new''] 0)
                       (nanoid_calls (collided example_world_fresh [LinkFindUniqueByTargetUrl ''https://fiverr.com/new''] 0)))
                    ''https://fiverr.com/new''),
            env := tl (env (collided example_world_fresh [LinkFindUniqueByTargetUrl ''https://fiverr.com/new''] 0)),
            trace := trace (collided example_world_fresh [LinkFindUniqueByTargetUrl ''https://fiverr.com/new''] 0) @
              [LinkCreate (nanoid_src (collided example_world_fresh [LinkFindUniqueByTargetUrl ''https://fiverr.com/new''] 0)
                 (nanoid_calls (collided example_world_fresh [LinkFindUniqueByTargetUrl ''https://fiverr.com/new''] 0))) ''https://fiverr.com/new'',
               Logged ''LinksService'' LOG
                 (''New link created: '' @ nanoid_src (collided example_world_fresh [LinkFindUniqueByTargetUrl ''https://fiverr.com/new''] 0)
                    (nanoid_calls (collided example_world_fresh [LinkFindUniqueByTargetUrl ''https://fiverr.com/new''] 0)) @ '' -> '' @ ''https://fiverr.com/new'')]\<rparr>)"
    using fresh absent q by (intro loop_created a) (simp_all add: quiet_simps)
  then show "env (snd (createLink ''https://fiverr.com/new'' example_world_fresh)) = []"
    unfolding createLink_quiet_absent [OF q absent] using q by simp
qed

section \<open>Facts about the redirect handler\<close>

lemma recordClick_split:
  "recordClick_resumed code (recordClick_called code w) = recordClick code w"
  by (simp add: recordClick_resumed_def recordClick_called_def recordClick_def
        prisma_link_findUnique_shortCode_def case_prod_beta Let_def
      split: option.splits sum.splits)

lemma resolve_trace:
  "\<exists>es. trace (snd (resolve code w)) = trace w @ es \<and> filter is_recording es = []
        \<and> filter is_ResRedirect es = []"
  by (simp add: resolve_def findUnique_shortCode_eq split: option.splits)

lemma resolve_settled:
  "env (snd (resolve code w)) = tl (env w)" "db (snd (resolve code w)) = after_env w"
  by (simp_all add: resolve_def findUnique_shortCode_eq logger_def emit_def split: option.splits)

lemma round_trip_trace: "trace (snd (round_trip w)) = trace w"
  by (simp add: round_trip_def split: list.splits)

lemma recordClick_resumed_trace:
  "\<exists>es. trace (snd (recordClick_resumed code w)) = trace w @ es \<and> filter is_ResRedirect es = []"
  by (simp add: recordClick_resumed_def round_trip_eq click_create_eq validate_eq logger_def emit_def
        case_prod_beta Let_def split: option.splits sum.splits)

lemma recordClick_detached_eq:
  "recordClick_detached code w =
     (case fst (recordClick_resumed code w) of
        Inl err \<Rightarrow> (Inr (), logger ''LinksController'' ERROR (''Failed to record click for '' @ code)
                     (snd (recordClick_resumed code w)))
      | Inr u \<Rightarrow> (Inr (), snd (recordClick_resumed code w)))"
  by (simp add: recordClick_detached_def case_prod_beta)

lemma recordClick_detached_settles: "fst (recordClick_detached code w) = Inr ()"
  by (simp add: recordClick_detached_eq split: sum.splits)

lemma serve_redirect_failing:
  "fst (serve_redirect ''abc12345'' example_world_failing) = Inr ()"
  "fst (snd (serve_redirect ''abc12345'' example_world_failing)) = []"
  "trace (snd (snd (serve_redirect ''abc12345'' example_world_failing))) =
     [Logged ''LinksController'' LOG ''Redirecting shortCode=abc12345'',
      LinkFindUniqueByShortCode ''abc12345'',
      Logged ''LinksService'' LOG ''Resolved abc12345 -> https://fiverr.com/gig'',
      ResRedirect 302 ''https://fiverr.com/gig'',
      LinkFindUniqueByShortCode ''abc12345'',
      FraudValidate,
      Logged ''FraudService'' LOG ''Fraud validation result: valid'',
      ClickCreate 1 True 5,
      Logged ''LinksController'' ERROR ''Failed to record click for abc12345'']"
  "clicks (db (snd (snd (serve_redirect ''abc12345'' example_world_failing)))) = []"
  "fst (resolve ''abc12345''
      (logger ''LinksController'' LOG ''Redirecting shortCode=abc12345'' example_world_failing)) =
     Inr ''https://fiverr.com/gig''"
  "fst (recordClick_resumed ''abc12345'' (fst (snd (redirect ''abc12345'' example_world_failing)))) =
     Inl (OtherFailure ''connection lost'')"
  "trace (fst (snd (redirect ''abc12345'' example_world_failing))) =
     [Logged ''LinksController'' LOG ''Redirecting shortCode=abc12345'',
      LinkFindUniqueByShortCode ''abc12345'',
      Logged ''LinksService'' LOG ''Resolved abc12345 -> https://fiverr.com/gig'',
      ResRedirect 302 ''https://fiverr.com/gig'',
      LinkFindUniqueByShortCode ''abc12345'']"
  by code_simp+

section \<open>Resolution\<close>

text \<open>
  Claim C7. \<^verbatim>\<open>resolve(shortCode)\<close> makes one call, the lookup by short code. When that
  round trip does not fail, it returns the \<^verbatim>\<open>targetUrl\<close> of the link the store holds
  under the code and fails with \<^verbatim>\<open>NotFoundException\<close> when the store holds none. It
  leaves the store as the lookup found it (unchanged when no other request is active),
  in particular with the same clicks, and neither \<^verbatim>\<open>nanoid\<close> nor the fraud
  validator's random source is touched.
\<close>

theorem resolve_read_only:
  "fst (resolve code w) =
     (case failure_of (next_acts w) of
        Some e \<Rightarrow> Inl e
      | None \<Rightarrow> (case findLinkByShortCode (after_env w) code of
                   Some l \<Rightarrow> Inr (targetUrl l)
                 | None \<Rightarrow> Inl (NotFoundException ''Short link not found'')))
   \<and> db (snd (resolve code w)) = after_env w
   \<and> (env w = [] \<longrightarrow> db (snd (resolve code w)) = db w)
   \<and> clicks (db (snd (resolve code w))) = clicks (db w)
   \<and> calls (events_since w (snd (resolve code w))) = [LinkFindUniqueByShortCode code]
   \<and> nanoid_calls (snd (resolve code w)) = nanoid_calls w
   \<and> random_calls (snd (resolve code w)) = random_calls w"
  by (simp add: resolve_def findUnique_shortCode_eq events_since_def calls_def after_env_quiet
           split: option.splits)

theorem resolve_read_only_witness:
  "fst (resolve ''abc12345'' example_world) = Inr ''https://fiverr.com/gig''
   \<and> fst (resolve ''nonexist'' example_world) = Inl (NotFoundException ''Short link not found'')
   \<and> db (snd (resolve ''abc12345'' example_world)) = db example_world
   \<and> db (snd (resolve ''nonexist'' example_world)) = db example_world"
  using resolve_read_only [of "''abc12345''" example_world]
        resolve_read_only [of "''nonexist''" example_world]
  by (simp add: example_world_lookup after_env_quiet next_acts_def)

section \<open>Click recording\<close>

text \<open>
  Claim C4. Whatever happens during \<^verbatim>\<open>recordClick\<close>, it adds at most one click to the
  store, and a click it adds carries the validator's answer as \<^verbatim>\<open>isValid\<close>, the credit
  \<^verbatim>\<open>Decimal('0.05')\<close> (5 hundredths) when that answer is valid and \<^verbatim>\<open>Decimal('0.00')\<close>
  (0 hundredths) when it is not, and the identifier of the link the lookup resolved.
  The credit is a decimal, an integer number of hundredths, at every step.
\<close>

theorem recordClick_earnedCredit:
  "\<exists>new. clicks (db (snd (recordClick code w))) = clicks (db w) @ new \<and> length new \<le> 1 \<and>
     (\<forall>c \<in> set new.
        isValid c = fst (FraudService_validate w) \<and>
        earnedCredit c = (if isValid c then Decimal_0_05 else Decimal_0_00) \<and>
        (earnedCredit c = 5 \<or> earnedCredit c = 0) \<and>
        Some (linkId c) = map_option id_link (findLinkByShortCode (after_env w) code))"
  unfolding recordClick_clicks
  by (auto simp: Decimal_0_05_def Decimal_0_00_def split: option.splits)

theorem recordClick_earnedCredit_witness:
  "clicks (db (snd (recordClick ''abc12345'' example_world))) =
     [\<lparr>id_click = 1, linkId = 1, isValid = True, earnedCredit = 5, clickedAt = (2026, 2, 1, 5)\<rparr>]
   \<and> clicks (db (snd (recordClick ''abc12345'' example_world_invalid))) =
     [\<lparr>id_click = 1, linkId = 1, isValid = False, earnedCredit = 0, clickedAt = (2026, 2, 1, 5)\<rparr>]"
  using recordClick_earnedCredit [of "''abc12345''" example_world]
        recordClick_earnedCredit [of "''abc12345''" example_world_invalid]
  by (simp add: recordClick_clicks example_world_facts example_world_invalid_facts example_world_lookup
        Decimal_0_05_def Decimal_0_00_def)

text \<open>
  Claim C8. When the lookup round trip does not fail and the store holds no link under
  the code, \<^verbatim>\<open>recordClick\<close> returns normally, its only call is the lookup (the fraud
  validator is not called and no insert is attempted), and the store is left as the
  lookup found it, with the same clicks. When the store holds a link under the code and
  the insert round trip does not fail, it returns normally with exactly one click
  added, by exactly one insert.
\<close>

theorem recordClick_unknown_code_dropped:
  "failure_of (acts_at w 0) = None \<Longrightarrow>
     (findLinkByShortCode (after_env w) code = None \<longrightarrow>
        fst (recordClick code w) = Inr () \<and>
        clicks (db (snd (recordClick code w))) = clicks (db w) \<and>
        calls (events_since w (snd (recordClick code w))) = [LinkFindUniqueByShortCode code] \<and>
        db (snd (recordClick code w)) = after_env w \<and>
        random_calls (snd (recordClick code w)) = random_calls w)
     \<and> (findLinkByShortCode (after_env w) code \<noteq> None \<longrightarrow> failure_of (acts_at w 1) = None \<longrightarrow>
        fst (recordClick code w) = Inr () \<and>
        length (clicks (db (snd (recordClick code w)))) = Suc (length (clicks (db w))) \<and>
        length (filter is_ClickCreate (events_since w (snd (recordClick code w)))) = 1)"
proof (intro conjI impI)
  assume ok: "failure_of (acts_at w 0) = None" and absent: "findLinkByShortCode (after_env w) code = None"
  note eq = recordClick_absent [OF ok absent]
  show "fst (recordClick code w) = Inr ()" by (simp add: eq)
  show "clicks (db (snd (recordClick code w))) = clicks (db w)" by (simp add: eq)
  show "calls (events_since w (snd (recordClick code w))) = [LinkFindUniqueByShortCode code]"
    by (simp add: eq calls_def)
  show "db (snd (recordClick code w)) = after_env w" by (simp add: eq)
  show "random_calls (snd (recordClick code w)) = random_calls w" by (simp add: eq)
next
  assume ok: "failure_of (acts_at w 0) = None" and ok': "failure_of (acts_at w 1) = None"
    and "findLinkByShortCode (after_env w) code \<noteq> None"
  then obtain l where found: "findLinkByShortCode (after_env w) code = Some l" by blast
  show "fst (recordClick code w) = Inr ()"
    using ok' by (simp add: recordClick_result ok found)
  show "length (clicks (db (snd (recordClick code w)))) = Suc (length (clicks (db w)))"
    using ok' by (simp add: recordClick_clicks ok found)
  have "filter is_ClickCreate (events_since w (snd (recordClick code w))) =
          filter is_ClickCreate (calls (events_since w (snd (recordClick code w))))"
    unfolding calls_def filter_filter by (rule filter_cong) (auto elim: is_ClickCreate.elims)
  then show "length (filter is_ClickCreate (events_since w (snd (recordClick code w)))) = 1"
    by (simp add: recordClick_calls ok found)
qed

theorem recordClick_unknown_code_dropped_witness:
  "failure_of (acts_at example_world 0) = None
   \<and> findLinkByShortCode (after_env example_world) ''nonexist'' = None
   \<and> fst (recordClick ''nonexist'' example_world) = Inr ()
   \<and> db (snd (recordClick ''nonexist'' example_world)) = db example_world
   \<and> calls (events_since example_world (snd (recordClick ''nonexist'' example_world))) =
       [LinkFindUniqueByShortCode ''nonexist'']
   \<and> findLinkByShortCode (after_env example_world) ''abc12345'' \<noteq> None
   \<and> failure_of (acts_at example_world 1) = None
   \<and> fst (recordClick ''abc12345'' example_world) = Inr ()
   \<and> length (clicks (db (snd (recordClick ''abc12345'' example_world)))) = 1"
  using recordClick_unknown_code_dropped [of example_world "''nonexist''"]
        recordClick_unknown_code_dropped [of example_world "''abc12345''"]
  by (simp add: example_world_facts example_world_lookup)

section \<open>Statistics\<close>

text \<open>
  Claim C6, as amended. Let \<open>page \<ge> 1\<close> and \<open>limit \<ge> 1\<close> be numbers such that the offset
  the service computes, \<^verbatim>\<open>(page - 1) * limit\<close>, and \<open>limit\<close> fit a 64-bit signed integer, and
  let the store have fewer than 2^53 links, the counts a number holds. Then \<^verbatim>\<open>getStats\<close>
  has a response. Its items are those of the links the store lists, most recent creation
  first, from offset \<open>(page - 1) \<times> limit\<close> on, at most \<open>limit\<close> of them, each with the short
  code and the target of its link and the number of the link's clicks. Its metadata
  repeats \<open>page\<close> and \<open>limit\<close>, gives the number of links as \<open>totalItems\<close> and the ceiling
  of \<open>totalItems / limit\<close> as \<open>totalPages\<close>, the least number of pages of \<open>limit\<close> items
  that hold them all: the rounding of the offset and of the quotient to doubles does not
  show. A page up to \<open>totalPages\<close> has items; a page beyond it has none, with the same
  metadata.
\<close>

theorem getStats_pagination:
  assumes "1 \<le> p" and "1 \<le> n" and "is_Number p" and "is_Number n"
    and "skip_of p n \<le> of_int Int64_max" and "n \<le> Int64_max"
    and "length (links s) < 2 ^ 53"
  shows "\<exists>r. getStats s p n = Some (Inr r)
     \<and> data r = map (stats_item s) (page_links s p n)
     \<and> page_links s p n =
         take (nat n) (drop (nat ((p - 1) * n)) (listLinks s 0 (length (links s))))
     \<and> mset (listLinks s 0 (length (links s))) = mset (links s)
     \<and> sorted_wrt (\<lambda>a b. createdAt b \<le> createdAt a) (listLinks s 0 (length (links s)))
     \<and> int (length (data r)) \<le> n
     \<and> (\<forall>i < length (data r).
           shortCode_item (data r ! i) = shortCode (page_links s p n ! i)
         \<and> url_item (data r ! i) = targetUrl (page_links s p n ! i)
         \<and> totalClicks (data r ! i) = length (clicksOf s (id_link (page_links s p n ! i))))
     \<and> page (meta r) = p \<and> limit (meta r) = n
     \<and> totalItems (meta r) = int (length (links s))
     \<and> totalPages (meta r) = \<lceil>(of_int (totalItems (meta r)) :: rat) / of_int n\<rceil>
     \<and> (totalPages (meta r) - 1) * n < totalItems (meta r)
     \<and> totalItems (meta r) \<le> totalPages (meta r) * n
     \<and> (p \<le> totalPages (meta r) \<longrightarrow> data r \<noteq> [])
     \<and> (totalPages (meta r) < p \<longrightarrow> data r = [])"
proof -
  define total where "total = int (length (links s))"
  define tp where "tp = \<lceil>(of_int total :: rat) / of_int n\<rceil>"
  define lks where "lks = page_links s p n"
  define r where "r = \<lparr>data = map (stats_item s) lks,
                        meta = \<lparr>page = p, limit = n, totalItems = total, totalPages = tp\<rparr>\<rparr>"
  have n: "0 < n" using assms by simp
  have r: "getStats s p n = Some (Inr r)"
    unfolding r_def total_def tp_def lks_def using assms by (rule getStats_response)
  have w: "lks = listLinks s (nat ((p - 1) * n)) (nat n)"
    unfolding lks_def using assms(1,2,7) by (rule page_links_window)
  have win: "lks = take (nat n) (drop (nat ((p - 1) * n)) (listLinks s 0 (length (links s))))"
    unfolding w by (rule listLinks_window)
  have lo: "(tp - 1) * n < total" and hi: "total \<le> tp * n"
    unfolding tp_def using ceiling_pages [OF n, of total] by simp_all
  have len: "int (length (data r)) \<le> n"
    using n by (simp add: r_def w listLinks_def)
  have items: "\<forall>i < length (data r).
           shortCode_item (data r ! i) = shortCode (lks ! i)
         \<and> url_item (data r ! i) = targetUrl (lks ! i)
         \<and> totalClicks (data r ! i) = length (clicksOf s (id_link (lks ! i)))"
    by (simp add: r_def stats_item_fields)
  have within: "data r \<noteq> []" if "p \<le> tp"
  proof -
    have "(p - 1) * n \<le> (tp - 1) * n"
      using that n by (simp add: mult_right_mono)
    then have "(p - 1) * n < total" using lo by simp
    moreover have "0 \<le> (p - 1) * n" using assms by simp
    ultimately have "nat ((p - 1) * n) < length (links s)"
      by (simp add: total_def nat_less_iff)
    then show ?thesis
      using n by (simp add: r_def w listLinks_within)
  qed
  have beyond: "data r = []" if "tp < p"
  proof -
    have "tp * n \<le> (p - 1) * n"
      using that n by (simp add: mult_right_mono)
    then have "total \<le> (p - 1) * n" using hi by simp
    then have "length (links s) \<le> nat ((p - 1) * n)"
      by (simp add: total_def)
    then show ?thesis
      by (simp add: r_def w listLinks_beyond)
  qed
  have m: "data r = map (stats_item s) lks" "page (meta r) = p" "limit (meta r) = n"
    "totalItems (meta r) = int (length (links s))"
    "totalPages (meta r) = \<lceil>(of_int (totalItems (meta r)) :: rat) / of_int n\<rceil>"
    "totalPages (meta r) = tp" "totalItems (meta r) = total"
    by (simp_all add: r_def total_def tp_def)
  have b: "(totalPages (meta r) - 1) * n < totalItems (meta r)"
    "totalItems (meta r) \<le> totalPages (meta r) * n"
    "p \<le> totalPages (meta r) \<longrightarrow> data r \<noteq> []"
    "totalPages (meta r) < p \<longrightarrow> data r = []"
    unfolding m(6,7) using lo hi within beyond by blast+
  show ?thesis
    unfolding lks_def [symmetric]
    using r m(1-5) win len items b listLinks_sorted [of s 0 "length (links s)"] listLinks_all [of s]
    by (intro exI [of _ r]) blast
qed

theorem getStats_pagination_witness:
  "getStats store_of_42 6 10 =
     Some (Inr \<lparr>data = [], meta = \<lparr>page = 6, limit = 10, totalItems = 42, totalPages = 5\<rparr>\<rparr>)"
proof -
  have p: "(1 :: int) \<le> 6" and n: "(1 :: int) \<le> 10" by simp_all
  have np: "is_Number 6" and nn: "is_Number 10" by (rule is_Number_small; simp)+
  have "skip_of 6 10 = of_int ((6 - 1) * 10)" by (rule skip_of_exact) simp_all
  then have sk: "skip_of 6 10 \<le> of_int Int64_max" by (simp add: Int64_max_def)
  have tk: "10 \<le> Int64_max" by (simp add: Int64_max_def)
  have l: "length (links store_of_42) < 2 ^ 53" by (simp add: store_of_42_length)
  from getStats_pagination [OF p n np nn sk tk l]
  obtain r where r: "getStats store_of_42 6 10 = Some (Inr r)" "page (meta r) = 6" "limit (meta r) = 10"
    "totalItems (meta r) = int (length (links store_of_42))"
    "(totalPages (meta r) - 1) * 10 < totalItems (meta r)"
    "totalItems (meta r) \<le> totalPages (meta r) * 10"
    "totalPages (meta r) < 6 \<longrightarrow> data r = []"
    by blast
  from r(4) have t: "totalItems (meta r) = 42" by (simp add: store_of_42_length)
  from r(5,6) t have "totalPages (meta r) = 5" by arith
  with r t have "r = \<lparr>data = [], meta = \<lparr>page = 6, limit = 10, totalItems = 42, totalPages = 5\<rparr>\<rparr>"
    by simp
  with r(1) show ?thesis by simp
qed

text \<open>
  Claim C6 as stated, for every \<open>page \<ge> 1\<close>, fails: with 42 links, \<open>page = 10^18\<close> and
  \<open>limit = 10\<close> the offset the service computes is beyond 2^63, \<^verbatim>\<open>findMany\<close> throws, and
  \<^verbatim>\<open>getStats\<close> throws with it instead of responding with an empty page.
\<close>

theorem getStats_huge_page_counterexample:
  "getStats store_of_42 1000000000000000000 10 =
     Some (Inl (OtherFailure ''skip or take does not fit a 64-bit signed integer''))"
proof -
  have nn: "is_Number 10" by (rule is_Number_small) simp_all
  have g: "\<not> (1000000000000000000 < (1 :: int) \<or> 10 < (1 :: int) \<or> \<not> is_Number 1000000000000000000
      \<or> \<not> is_Number 10 \<or> 2 ^ 1023 \<le> (1000000000000000000 - 1) * (10 :: int))"
    using nn is_Number_10_18 by simp
  have "of_int Int64_max < skip_of 1000000000000000000 10"
    using skip_of_10_18 by (simp add: Int64_max_def)
  then have f: "prisma_link_findMany store_of_42 (skip_of 1000000000000000000 10) 10 =
      Inl (OtherFailure ''skip or take does not fit a 64-bit signed integer'')"
    by (simp add: prisma_link_findMany_def)
  show ?thesis
    unfolding getStats_def f using g by (simp only: if_False sum.case)
qed



text \<open>
  Claim C5. The \<open>i\<close>-th item of a \<^verbatim>\<open>getStats\<close> page is that of the \<open>i\<close>-th link the store
  lists for the page, the link at offset \<open>(page - 1) \<times> limit + i\<close> of the listing in a store
  of fewer than 2^53 links. For that item, the monthly breakdown has one
  entry for each calendar month (UTC) in which the link has a click and none for any
  other month, in ascending chronological order. The entry of a month is labelled
  with the month number padded to two digits, a slash and the year (\<^verbatim>\<open>MM/YYYY\<close> for a
  four-digit year); its click count is the number of the link's clicks in that month,
  which is at least one; its earnings are the sum of their credits converted and
  formatted with two decimals, the exact sum below 2^46 currency units.
\<close>

theorem getStats_monthlyBreakdown:
  "getStats s p n = Some (Inr r) \<Longrightarrow> i < length (data r) \<Longrightarrow>
     (let l = page_links s p n ! i;
          cs = clicksOf s (id_link l);
          months = sort (remdups (map month_key cs));
          mb = monthlyBreakdown (data r ! i)
      in (length (links s) < 2 ^ 53 \<longrightarrow> l = listLinks s (nat ((p - 1) * n)) (nat n) ! i)
       \<and> length mb = length months
       \<and> sorted months \<and> distinct months
       \<and> set months = month_key ` set cs
       \<and> (\<forall>j < length months.
            (case months ! j of (y, mo, d, ms) \<Rightarrow>
               month (mb ! j) = padStart2 (digits mo) @ ''/'' @ String_of_int y
               \<and> (mo < 100 \<and> 1000 \<le> y \<and> y \<le> 9999 \<longrightarrow> month (mb ! j) = label_MM_YYYY mo y))
            \<and> clicks_mb (mb ! j) = length (filter (\<lambda>c. month_key c = months ! j) cs)
            \<and> 0 < clicks_mb (mb ! j)
            \<and> earnings (mb ! j) =
                toFixed2 (Number_of_Decimal
                  (sum_list (map earnedCredit (filter (\<lambda>c. month_key c = months ! j) cs))))
            \<and> (\<bar>sum_list (map earnedCredit (filter (\<lambda>c. month_key c = months ! j) cs))\<bar> < 100 * 2 ^ 46 \<longrightarrow>
                 earnings (mb ! j) =
                   Some (decimal_fixed2
                     (sum_list (map earnedCredit (filter (\<lambda>c. month_key c = months ! j) cs)))))))"
proof -
  assume r: "getStats s p n = Some (Inr r)" and i: "i < length (data r)"
  define l where "l = page_links s p n ! i"
  define cs where "cs = clicksOf s (id_link l)"
  define months where "months = sort (remdups (map month_key cs))"
  define mb where "mb = monthlyBreakdown (data r ! i)"
  define rows where "rows = groupClicksByMonth s (id_link l)"
  have d: "data r = map (stats_item s) (page_links s p n)"
    using r by (rule getStats_data)
  have it: "data r ! i = stats_item s l"
    using i unfolding d l_def by simp
  have mb: "mb = map breakdown_row rows"
    by (simp add: mb_def it monthlyBreakdown_eq rows_def)
  have ms: "map fst rows = months"
    by (simp add: rows_def groupClicksByMonth_months months_def cs_def)
  have len: "length rows = length months"
    using ms by (metis length_map)
  have 0: "l = listLinks s (nat ((p - 1) * n)) (nat n) ! i" if "length (links s) < 2 ^ 53"
    unfolding l_def getStats_window [OF r that] by (rule refl)
  have 1: "length mb = length months" by (simp add: mb len)
  have 2: "sorted months" "distinct months" "set months = month_key ` set cs"
    by (simp_all add: months_def)
  have 3: "(case months ! j of (y, mo, d, ms) \<Rightarrow>
               month (mb ! j) = padStart2 (digits mo) @ ''/'' @ String_of_int y
               \<and> (mo < 100 \<and> 1000 \<le> y \<and> y \<le> 9999 \<longrightarrow> month (mb ! j) = label_MM_YYYY mo y))
            \<and> clicks_mb (mb ! j) = length (filter (\<lambda>c. month_key c = months ! j) cs)
            \<and> 0 < clicks_mb (mb ! j)
            \<and> earnings (mb ! j) =
                toFixed2 (Number_of_Decimal
                  (sum_list (map earnedCredit (filter (\<lambda>c. month_key c = months ! j) cs))))
            \<and> (\<bar>sum_list (map earnedCredit (filter (\<lambda>c. month_key c = months ! j) cs))\<bar> < 100 * 2 ^ 46 \<longrightarrow>
                 earnings (mb ! j) =
                   Some (decimal_fixed2
                     (sum_list (map earnedCredit (filter (\<lambda>c. month_key c = months ! j) cs)))))"
    if j: "j < length months" for j
  proof -
    define g where "g = filter (\<lambda>c. month_key c = months ! j) cs"
    have jr: "j < length rows" using j len by simp
    have mj: "map fst rows ! j = months ! j" by (simp add: ms)
    have row: "rows ! j = (months ! j, length g, sum_list (map earnedCredit g))"
      using groupClicksByMonth_nth [of j s "id_link l"] jr
      unfolding rows_def [symmetric] cs_def [symmetric] mj g_def by simp
    have e: "mb ! j = breakdown_row (months ! j, length g, sum_list (map earnedCredit g))"
      using jr by (simp add: mb row)
    have "months ! j \<in> set months" using j by simp
    then obtain c where c: "c \<in> set cs" "month_key c = months ! j"
      unfolding 2(3) by auto
    then have "c \<in> set g" by (simp add: g_def)
    then have gpos: "0 < length g" by (cases g) auto
    obtain y mo d ms where t: "months ! j = (y, mo, d, ms)" by (cases "months ! j") auto
    have lab: "month (mb ! j) = padStart2 (digits mo) @ ''/'' @ String_of_int y"
      by (simp add: e t month_label)
    have lab': "month (mb ! j) = label_MM_YYYY mo y" if "mo < 100 \<and> 1000 \<le> y \<and> y \<le> 9999"
      using that by (simp add: e t month_label_MM_YYYY)
    have cl: "clicks_mb (mb ! j) = length g"
      by (simp add: e breakdown_row_def Let_def)
    have ea: "earnings (mb ! j) = toFixed2 (Number_of_Decimal (sum_list (map earnedCredit g)))"
      by (simp add: e t earnings_eq)
    have ex: "earnings (mb ! j) = Some (decimal_fixed2 (sum_list (map earnedCredit g)))"
      if "\<bar>sum_list (map earnedCredit g)\<bar> < 100 * 2 ^ 46"
      using that by (simp add: ea toFixed2_Number_exact)
    show ?thesis
      unfolding g_def [symmetric] using lab lab' cl gpos ea ex by (simp add: t)
  qed
  show ?thesis
    unfolding Let_def l_def [symmetric] cs_def [symmetric] months_def [symmetric] mb_def [symmetric]
    using 0 1 2 3 by blast
qed

theorem getStats_monthlyBreakdown_witness:
  "\<exists>r. getStats store_three_clicks 1 10 = Some (Inr r)
      \<and> map clickedAt (clicksOf store_three_clicks 1) =
          [(2026, 1, 3, 1000), (2025, 12, 15, 43200000), (2025, 12, 28, 86399999)]
      \<and> monthlyBreakdown (data r ! 0) =
          [\<lparr>month = ''12/2025'', clicks_mb = 2, earnings = Some ''0.05''\<rparr>,
           \<lparr>month = ''01/2026'', clicks_mb = 1, earnings = Some ''0.05''\<rparr>]"
proof -
  define r where "r = \<lparr>data = [stats_item store_three_clicks (hd (links example_store))],
           meta = \<lparr>page = 1, limit = 10, totalItems = 1, totalPages = 1\<rparr>\<rparr>"
  have r: "getStats store_three_clicks 1 10 = Some (Inr r)"
    unfolding r_def by (rule three_clicks_page)
  have i: "0 < length (data r)" by (simp add: r_def)
  have dates: "map clickedAt (clicksOf store_three_clicks 1) =
          [(2026, 1, 3, 1000), (2025, 12, 15, 43200000), (2025, 12, 28, 86399999)]"
    unfolding three_clicks_of by simp
  from getStats_monthlyBreakdown [OF r i]
  have "length (monthlyBreakdown (data r ! 0)) = length [(2025 :: int, 12 :: nat, 1 :: nat, 0 :: nat), (2026, 1, 1, 0)]"
    unfolding Let_def three_clicks_page(2) store_with_clicks_page(2) three_clicks_months by blast
  moreover have "monthlyBreakdown (data r ! 0) =
          [\<lparr>month = ''12/2025'', clicks_mb = 2, earnings = Some ''0.05''\<rparr>,
           \<lparr>month = ''01/2026'', clicks_mb = 1, earnings = Some ''0.05''\<rparr>]"
    by (simp add: r_def three_clicks_breakdown)
  ultimately show ?thesis
    using r dates by (intro exI [of _ r]) simp
qed

section \<open>Link creation\<close>

text \<open>
  Claim C2. Whatever the store and the concurrent requests do, one \<^verbatim>\<open>createLink\<close> makes
  at most 3 insert attempts. With no concurrent request and no store failure, for a
  target the store does not hold: when the first two generated codes are in use and
  the third is not, \<^verbatim>\<open>createLink\<close> returns the new link with the third code after
  exactly 3 insert attempts, one per code; when the first three generated codes are
  all in use, it fails after exactly 3 insert attempts, with the uniqueness violation
  of the last one as the error it throws.
\<close>

theorem createLink_collision_bound:
  "length (filter is_LinkCreate (events_since w (snd (createLink url w)))) \<le> 3
   \<and> (env w = [] \<and> (\<forall>l \<in> set (links (db w)). targetUrl l \<noteq> url)
        \<and> (\<exists>l \<in> set (links (db w)). shortCode l = nanoid_src w (nanoid_calls w))
        \<and> (\<exists>l \<in> set (links (db w)). shortCode l = nanoid_src w (nanoid_calls w + 1))
        \<and> (\<forall>l \<in> set (links (db w)). shortCode l \<noteq> nanoid_src w (nanoid_calls w + 2))
      \<longrightarrow> fst (createLink url w) =
            Inr \<lparr>code_of = nanoid_src w (nanoid_calls w + 2), url_of = url, isNew = True\<rparr>
          \<and> filter is_LinkCreate (events_since w (snd (createLink url w))) =
              [LinkCreate (nanoid_src w (nanoid_calls w)) url,
               LinkCreate (nanoid_src w (nanoid_calls w + 1)) url,
               LinkCreate (nanoid_src w (nanoid_calls w + 2)) url]
          \<and> links (db (snd (createLink url w))) =
              links (db w) @ [\<lparr>id_link = links_id_seq (db w) + 3,
                                shortCode = nanoid_src w (nanoid_calls w + 2),
                                targetUrl = url, createdAt = now w\<rparr>])
   \<and> (env w = [] \<and> (\<forall>l \<in> set (links (db w)). targetUrl l \<noteq> url)
        \<and> (\<exists>l \<in> set (links (db w)). shortCode l = nanoid_src w (nanoid_calls w))
        \<and> (\<exists>l \<in> set (links (db w)). shortCode l = nanoid_src w (nanoid_calls w + 1))
        \<and> (\<exists>l \<in> set (links (db w)). shortCode l = nanoid_src w (nanoid_calls w + 2))
      \<longrightarrow> fst (createLink url w) =
            Inl (PrismaClientKnownRequestError ''P2002'' (Some [''short_code'']))
          \<and> filter is_LinkCreate (events_since w (snd (createLink url w))) =
              [LinkCreate (nanoid_src w (nanoid_calls w)) url,
               LinkCreate (nanoid_src w (nanoid_calls w + 1)) url,
               LinkCreate (nanoid_src w (nanoid_calls w + 2)) url]
          \<and> links (db (snd (createLink url w))) = links (db w))"
proof (intro conjI impI)
  from createLink_trace [of url w] obtain es where
    "trace (snd (createLink url w)) = trace w @ es" "length (filter is_LinkCreate es) \<le> maxRetries"
    by blast
  then show "length (filter is_LinkCreate (events_since w (snd (createLink url w)))) \<le> 3"
    by (simp add: maxRetries_def)
next
  assume h: "env w = [] \<and> (\<forall>l \<in> set (links (db w)). targetUrl l \<noteq> url)
        \<and> (\<exists>l \<in> set (links (db w)). shortCode l = nanoid_src w (nanoid_calls w))
        \<and> (\<exists>l \<in> set (links (db w)). shortCode l = nanoid_src w (nanoid_calls w + 1))
        \<and> (\<forall>l \<in> set (links (db w)). shortCode l \<noteq> nanoid_src w (nanoid_calls w + 2))"
  then have q: "env w = []" and absent: "\<forall>l \<in> set (links (db w)). targetUrl l \<noteq> url"
    and c0: "\<exists>l \<in> set (links (db w)). shortCode l = nanoid_src w (nanoid_calls w + 0)"
    and c1: "\<exists>l \<in> set (links (db w)). shortCode l = nanoid_src w (nanoid_calls w + 1)"
    and c2: "\<forall>l \<in> set (links (db w)). shortCode l \<noteq> nanoid_src w (nanoid_calls w + 2)"
    by simp_all
  define es where "es = [LinkFindUniqueByTargetUrl url,
       LinkCreate (nanoid_src w (nanoid_calls w + 0)) url,
       Logged ''LinksService'' WARN (''Short code collision on attempt '' @ digits (0 + 1) @ ''/'' @ digits maxRetries),
       LinkCreate (nanoid_src w (nanoid_calls w + 1)) url,
       Logged ''LinksService'' WARN (''Short code collision on attempt '' @ digits (1 + 1) @ ''/'' @ digits maxRetries)]"
  have s0: "createLink url w = createLink_loop 0 url (collided w [LinkFindUniqueByTargetUrl url] 0)"
    using q absent by (rule createLink_quiet_absent)
  have s1: "createLink_loop 0 url (collided w [LinkFindUniqueByTargetUrl url] 0) =
            createLink_loop (0 + 1) url (collided w ([LinkFindUniqueByTargetUrl url] @
              [LinkCreate (nanoid_src w (nanoid_calls w + 0)) url,
               Logged ''LinksService'' WARN (''Short code collision on attempt '' @ digits (0 + 1) @ ''/'' @ digits maxRetries)]) (Suc 0))"
    by (subst quiet_collision [OF q _ c0]) (simp_all add: maxRetries_def)
  have s2: "createLink_loop (0 + 1) url (collided w ([LinkFindUniqueByTargetUrl url] @
              [LinkCreate (nanoid_src w (nanoid_calls w + 0)) url,
               Logged ''LinksService'' WARN (''Short code collision on attempt '' @ digits (0 + 1) @ ''/'' @ digits maxRetries)]) (Suc 0)) =
            createLink_loop (1 + 1) url (collided w es (Suc 1))"
    using quiet_collision [OF q _ c1 [unfolded One_nat_def], of 1 url "[LinkFindUniqueByTargetUrl url] @
              [LinkCreate (nanoid_src w (nanoid_calls w + 0)) url,
               Logged ''LinksService'' WARN (''Short code collision on attempt '' @ digits (0 + 1) @ ''/'' @ digits maxRetries)]"]
    by (simp add: maxRetries_def es_def)
  have e: "createLink url w = createLink_loop 2 url (collided w es 2)"
    using s0 s1 s2 by (simp add: numeral_2_eq_2)
  have a2: "(2 :: nat) < maxRetries" by (simp add: maxRetries_def)
  note cr = quiet_created [OF q a2 c2 absent, of es]
  show "fst (createLink url w) =
            Inr \<lparr>code_of = nanoid_src w (nanoid_calls w + 2), url_of = url, isNew = True\<rparr>"
    by (simp only: e cr(1))
  show "filter is_LinkCreate (events_since w (snd (createLink url w))) =
              [LinkCreate (nanoid_src w (nanoid_calls w)) url,
               LinkCreate (nanoid_src w (nanoid_calls w + 1)) url,
               LinkCreate (nanoid_src w (nanoid_calls w + 2)) url]"
    unfolding e events_since_def cr(2) by (simp add: es_def)
  show "links (db (snd (createLink url w))) =
              links (db w) @ [\<lparr>id_link = links_id_seq (db w) + 3,
                                shortCode = nanoid_src w (nanoid_calls w + 2),
                                targetUrl = url, createdAt = now w\<rparr>]"
    unfolding e cr(3) by simp
next
  assume h: "env w = [] \<and> (\<forall>l \<in> set (links (db w)). targetUrl l \<noteq> url)
        \<and> (\<exists>l \<in> set (links (db w)). shortCode l = nanoid_src w (nanoid_calls w))
        \<and> (\<exists>l \<in> set (links (db w)). shortCode l = nanoid_src w (nanoid_calls w + 1))
        \<and> (\<exists>l \<in> set (links (db w)). shortCode l = nanoid_src w (nanoid_calls w + 2))"
  then have q: "env w = []" and absent: "\<forall>l \<in> set (links (db w)). targetUrl l \<noteq> url"
    and c0: "\<exists>l \<in> set (links (db w)). shortCode l = nanoid_src w (nanoid_calls w + 0)"
    and c1: "\<exists>l \<in> set (links (db w)). shortCode l = nanoid_src w (nanoid_calls w + 1)"
    and c2: "\<exists>l \<in> set (links (db w)). shortCode l = nanoid_src w (nanoid_calls w + 2)"
    by simp_all
  define es where "es = [LinkFindUniqueByTargetUrl url,
       LinkCreate (nanoid_src w (nanoid_calls w + 0)) url,
       Logged ''LinksService'' WARN (''Short code collision on attempt '' @ digits (0 + 1) @ ''/'' @ digits maxRetries),
       LinkCreate (nanoid_src w (nanoid_calls w + 1)) url,
       Logged ''LinksService'' WARN (''Short code collision on attempt '' @ digits (1 + 1) @ ''/'' @ digits maxRetries)]"
  have s0: "createLink url w = createLink_loop 0 url (collided w [LinkFindUniqueByTargetUrl url] 0)"
    using q absent by (rule createLink_quiet_absent)
  have s1: "createLink_loop 0 url (collided w [LinkFindUniqueByTargetUrl url] 0) =
            createLink_loop (0 + 1) url (collided w ([LinkFindUniqueByTargetUrl url] @
              [LinkCreate (nanoid_src w (nanoid_calls w + 0)) url,
               Logged ''LinksService'' WARN (''Short code collision on attempt '' @ digits (0 + 1) @ ''/'' @ digits maxRetries)]) (Suc 0))"
    by (subst quiet_collision [OF q _ c0]) (simp_all add: maxRetries_def)
  have s2: "createLink_loop (0 + 1) url (collided w ([LinkFindUniqueByTargetUrl url] @
              [LinkCreate (nanoid_src w (nanoid_calls w + 0)) url,
               Logged ''LinksService'' WARN (''Short code collision on attempt '' @ digits (0 + 1) @ ''/'' @ digits maxRetries)]) (Suc 0)) =
            createLink_loop (1 + 1) url (collided w es (Suc 1))"
    using quiet_collision [OF q _ c1 [unfolded One_nat_def], of 1 url "[LinkFindUniqueByTargetUrl url] @
              [LinkCreate (nanoid_src w (nanoid_calls w + 0)) url,
               Logged ''LinksService'' WARN (''Short code collision on attempt '' @ digits (0 + 1) @ ''/'' @ digits maxRetries)]"]
    by (simp add: maxRetries_def es_def)
  have e: "createLink url w = createLink_loop 2 url (collided w es 2)"
    using s0 s1 s2 by (simp add: numeral_2_eq_2)
  have a2: "(2 :: nat) < maxRetries" by (simp add: maxRetries_def)
  have last: "createLink_loop 2 url (collided w es 2) =
      (Inl (PrismaClientKnownRequestError ''P2002'' (Some [''short_code''])),
       collided w (es @ [LinkCreate (nanoid_src w (nanoid_calls w + 2)) url,
                          Logged ''LinksService'' WARN
                            (''Short code collision on attempt '' @ digits (2 + 1) @ ''/'' @
                             digits maxRetries)]) (Suc 2))"
    by (subst quiet_collision [OF q a2 c2]) (simp add: maxRetries_def)
  show "fst (createLink url w) = Inl (PrismaClientKnownRequestError ''P2002'' (Some [''short_code'']))"
    by (simp only: e last fst_conv)
  show "filter is_LinkCreate (events_since w (snd (createLink url w))) =
              [LinkCreate (nanoid_src w (nanoid_calls w)) url,
               LinkCreate (nanoid_src w (nanoid_calls w + 1)) url,
               LinkCreate (nanoid_src w (nanoid_calls w + 2)) url]"
    unfolding e last events_since_def by (simp add: es_def)
  show "links (db (snd (createLink url w))) = links (db w)"
    unfolding e last by simp
qed


theorem createLink_collision_bound_witness:
  "fst (createLink ''https://fiverr.com/new'' example_world) =
     Inr \<lparr>code_of = ''new12345'', url_of = ''https://fiverr.com/new'', isNew = True\<rparr>
   \<and> filter is_LinkCreate (events_since example_world
         (snd (createLink ''https://fiverr.com/new'' example_world))) =
       [LinkCreate ''abc12345'' ''https://fiverr.com/new'',
        LinkCreate ''abc12345'' ''https://fiverr.com/new'',
        LinkCreate ''new12345'' ''https://fiverr.com/new'']
   \<and> fst (createLink ''https://fiverr.com/new'' example_world_colliding) =
       Inl (PrismaClientKnownRequestError ''P2002'' (Some [''short_code'']))
   \<and> length (filter is_LinkCreate (events_since example_world_colliding
         (snd (createLink ''https://fiverr.com/new'' example_world_colliding)))) = 3"
  using createLink_collision_bound [of example_world "''https://fiverr.com/new''"]
        createLink_collision_bound [of example_world_colliding "''https://fiverr.com/new''"]
  by (simp add: example_world_def example_world_colliding_def example_store_def)

text \<open>
  Claim C3. The lookup finds no link for the target; before the insert another request
  creates one, so the insert, whose code is not in use, fails with the uniqueness
  violation on \<^verbatim>\<open>target_url\<close>. When the re-read round trip does not fail,
  \<^verbatim>\<open>createLink\<close> returns normally with the short code and target of that link and
  \<^verbatim>\<open>isNew = false\<close>, and it has made exactly one insert attempt: lookup, insert,
  re-read, nothing more. The same holds at any attempt of the retry loop whose insert
  meets such a link.
\<close>

theorem createLink_target_conflict_resolved:
  assumes "failure_of (acts_at w 0) = None" and "findLinkByTargetUrl (after_env w) url = None"
    and "failure_of (acts_at w 1) = None"
    and "findLinkByTargetUrl (fold (concurrent (now w)) (acts_at w 1) (after_env w)) url = Some l"
    and "\<forall>l' \<in> set (links (fold (concurrent (now w)) (acts_at w 1) (after_env w))).
           shortCode l' \<noteq> nanoid_src w (nanoid_calls w)"
    and "failure_of (acts_at w 2) = None"
  shows "fst (createLink url w) = Inr \<lparr>code_of = shortCode l, url_of = url, isNew = False\<rparr>
     \<and> targetUrl l = url
     \<and> calls (events_since w (snd (createLink url w))) =
         [LinkFindUniqueByTargetUrl url, LinkCreate (nanoid_src w (nanoid_calls w)) url,
          LinkFindUniqueByTargetUrl url]
     \<and> length (filter is_LinkCreate (events_since w (snd (createLink url w)))) = 1
     \<and> (\<forall>a w' l'. a < maxRetries \<and> failure_of (acts_at w' 0) = None
            \<and> (\<forall>x \<in> set (links (after_env w')). shortCode x \<noteq> nanoid_src w' (nanoid_calls w'))
            \<and> findLinkByTargetUrl (after_env w') url = Some l'
            \<and> failure_of (acts_at w' 1) = None
          \<longrightarrow> fst (createLink_loop a url w') =
                Inr \<lparr>code_of = shortCode l', url_of = url, isNew = False\<rparr>)"
proof -
  define w1 where "w1 = w\<lparr>db := after_env w, env := tl (env w), trace := trace w @ [LinkFindUniqueByTargetUrl url]\<rparr>"
  have e: "createLink url w = createLink_loop 0 url w1"
    using assms(1,2) by (simp add: createLink_def findUnique_targetUrl_eq next_acts_at w1_def)
  have acts: "acts_at w1 k = acts_at w (Suc k)" for k
  proof -
    have "acts_at w1 k = acts_at (w\<lparr>env := tl (env w)\<rparr>) k"
      by (simp add: acts_at_def w1_def)
    then show ?thesis by (simp only: acts_at_tl)
  qed
  have ae: "after_env w1 = fold (concurrent (now w)) (acts_at w 1) (after_env w)"
  proof -
    have "after_env w1 = fold (concurrent (now w1)) (acts_at w1 0) (db w1)"
      unfolding after_env_def next_acts_at ..
    moreover have "now w1 = now w" "db w1 = after_env w" by (simp_all add: w1_def)
    ultimately show ?thesis using acts [of 0] by simp
  qed
  have n: "nanoid_src w1 = nanoid_src w" "nanoid_calls w1 = nanoid_calls w" "trace w1 = trace w @ [LinkFindUniqueByTargetUrl url]"
    by (simp_all add: w1_def)
  have a: "0 < maxRetries" by (simp add: maxRetries_def)
  have ok1: "failure_of (acts_at w1 0) = None" using assms(3) by (simp add: acts)
  have ok2: "failure_of (acts_at w1 1) = None" using assms(6) by (simp add: acts numeral_2_eq_2)
  have fresh: "\<forall>l \<in> set (links (after_env w1)). shortCode l \<noteq> nanoid_src w1 (nanoid_calls w1)"
    using assms(5) by (simp add: ae n)
  have found: "findLinkByTargetUrl (after_env w1) url = Some l"
    using assms(4) by (simp add: ae)
  note r = loop_race [OF a ok1 fresh found ok2]
  have tr: "events_since w (snd (createLink url w)) =
          [LinkFindUniqueByTargetUrl url, LinkCreate (nanoid_src w (nanoid_calls w)) url,
           LinkFindUniqueByTargetUrl url,
           Logged ''LinksService'' LOG
               (''Existing link found (race condition) for URL: '' @ url @ '' -> '' @ shortCode l)]"
    by (simp add: e r(2) n events_since_def)
  have any: "\<forall>a w' l'. a < maxRetries \<and> failure_of (acts_at w' 0) = None
            \<and> (\<forall>x \<in> set (links (after_env w')). shortCode x \<noteq> nanoid_src w' (nanoid_calls w'))
            \<and> findLinkByTargetUrl (after_env w') url = Some l'
            \<and> failure_of (acts_at w' 1) = None
          \<longrightarrow> fst (createLink_loop a url w') =
                Inr \<lparr>code_of = shortCode l', url_of = url, isNew = False\<rparr>"
    using loop_race(1) by blast
  have "fst (createLink url w) = Inr \<lparr>code_of = shortCode l, url_of = url, isNew = False\<rparr>"
    by (simp add: e r(1))
  moreover have "targetUrl l = url"
    using findLinkByTargetUrl_Some [OF assms(4)] by simp
  moreover have "calls (events_since w (snd (createLink url w))) =
         [LinkFindUniqueByTargetUrl url, LinkCreate (nanoid_src w (nanoid_calls w)) url,
          LinkFindUniqueByTargetUrl url]"
    by (simp add: tr calls_def)
  moreover have "length (filter is_LinkCreate (events_since w (snd (createLink url w)))) = 1"
    by (simp add: tr)
  ultimately show ?thesis using any by blast
qed

theorem createLink_target_conflict_resolved_witness:
  "findLinkByTargetUrl (after_env example_world_race) ''https://fiverr.com/new'' = None
   \<and> fst (createLink ''https://fiverr.com/new'' example_world_race) =
       Inr \<lparr>code_of = ''win12345'', url_of = ''https://fiverr.com/new'', isNew = False\<rparr>
   \<and> calls (events_since example_world_race (snd (createLink ''https://fiverr.com/new'' example_world_race))) =
         [LinkFindUniqueByTargetUrl ''https://fiverr.com/new'', LinkCreate ''new12345'' ''https://fiverr.com/new'',
          LinkFindUniqueByTargetUrl ''https://fiverr.com/new'']"
proof -
  let ?l = "\<lparr>id_link = 2, shortCode = ''win12345'', targetUrl = ''https://fiverr.com/new'',
             createdAt = (2026, 2, 1, 5)\<rparr>"
  have h: "failure_of (acts_at example_world_race 0) = None"
    "findLinkByTargetUrl (after_env example_world_race) ''https://fiverr.com/new'' = None"
    "failure_of (acts_at example_world_race 1) = None"
    "findLinkByTargetUrl (fold (concurrent (now example_world_race)) (acts_at example_world_race 1)
        (after_env example_world_race)) ''https://fiverr.com/new'' = Some ?l"
    "\<forall>l' \<in> set (links (fold (concurrent (now example_world_race)) (acts_at example_world_race 1)
        (after_env example_world_race))).
           shortCode l' \<noteq> nanoid_src example_world_race (nanoid_calls example_world_race)"
    "failure_of (acts_at example_world_race 2) = None"
    by (simp_all add: example_world_race_def example_world_def example_store_def acts_at_def
          after_env_def next_acts_def findLinkByTargetUrl_def insertLink_def Let_def)
  from createLink_target_conflict_resolved [OF h] h(2) show ?thesis
    by (simp add: example_world_race_def example_world_def)
qed

text \<open>
  Claim C9. When the lookup round trip does not fail and finds a link for the target,
  \<^verbatim>\<open>createLink\<close> returns that link's short code with \<^verbatim>\<open>isNew = false\<close>; its only call is
  the lookup, no insert is attempted, and the store is left as the lookup found it.
  After any call that returned normally, the next call for the same target, whatever
  other requests have inserted meanwhile, returns the same short code and target with
  \<^verbatim>\<open>isNew = false\<close>, again with the lookup as its only call. A call keeps the target
  URLs of the stored links pairwise distinct, and their short codes as well.
\<close>

theorem createLink_dedup:
  "(failure_of (acts_at w 0) = None \<and> findLinkByTargetUrl (after_env w) url = Some l \<longrightarrow>
       fst (createLink url w) = Inr \<lparr>code_of = shortCode l, url_of = url, isNew = False\<rparr>
     \<and> calls (events_since w (snd (createLink url w))) = [LinkFindUniqueByTargetUrl url]
     \<and> db (snd (createLink url w)) = after_env w)
   \<and> (fst (createLink url w) = Inr c \<and> failure_of (acts_at (snd (createLink url w)) 0) = None \<longrightarrow>
       fst (createLink url (snd (createLink url w))) =
         Inr \<lparr>code_of = code_of c, url_of = url_of c, isNew = False\<rparr>
     \<and> calls (events_since (snd (createLink url w)) (snd (createLink url (snd (createLink url w))))) =
         [LinkFindUniqueByTargetUrl url])
   \<and> (distinct (map targetUrl (links (db w))) \<longrightarrow>
        distinct (map targetUrl (links (db (snd (createLink url w))))))
   \<and> (distinct (map shortCode (links (db w))) \<longrightarrow>
        distinct (map shortCode (links (db (snd (createLink url w))))))"
proof (intro conjI impI)
  assume h: "failure_of (acts_at w 0) = None \<and> findLinkByTargetUrl (after_env w) url = Some l"
  note e = createLink_existing [of w url l]
  show "fst (createLink url w) = Inr \<lparr>code_of = shortCode l, url_of = url, isNew = False\<rparr>"
    using h by (simp add: e)
  show "calls (events_since w (snd (createLink url w))) = [LinkFindUniqueByTargetUrl url]"
    using h by (simp add: e calls_def)
  show "db (snd (createLink url w)) = after_env w"
    using h by (simp add: e)
next
  assume h: "fst (createLink url w) = Inr c \<and> failure_of (acts_at (snd (createLink url w)) 0) = None"
  define w' where "w' = snd (createLink url w)"
  have ok: "failure_of (acts_at w' 0) = None" using h by (simp add: w'_def)
  from createLink_post(2) [of "\<lambda>s. True" w url c] h
  obtain l where l: "url_of c = url" "findLinkByTargetUrl (db w') url = Some l" "shortCode l = code_of c"
    by (auto simp: w'_def)
  have f: "findLinkByTargetUrl (after_env w') url = Some l"
    using l(2) by (rule after_env_keeps_targetUrl)
  note e = createLink_existing [OF ok f]
  show "fst (createLink url (snd (createLink url w))) =
         Inr \<lparr>code_of = code_of c, url_of = url_of c, isNew = False\<rparr>"
    unfolding w'_def [symmetric] by (simp add: e l)
  show "calls (events_since (snd (createLink url w)) (snd (createLink url (snd (createLink url w))))) =
         [LinkFindUniqueByTargetUrl url]"
    unfolding w'_def [symmetric] by (simp add: e calls_def)
next
  assume "distinct (map targetUrl (links (db w)))"
  then show "distinct (map targetUrl (links (db (snd (createLink url w)))))"
    by (rule createLink_post(1) [of "\<lambda>s. distinct (map targetUrl (links s))", rotated])
       (rule insertLink_distinct_targetUrl)
next
  assume "distinct (map shortCode (links (db w)))"
  then show "distinct (map shortCode (links (db (snd (createLink url w)))))"
    by (rule createLink_post(1) [of "\<lambda>s. distinct (map shortCode (links s))", rotated])
       (rule insertLink_distinct_shortCode)
qed

theorem createLink_dedup_witness:
  "fst (createLink ''https://fiverr.com/gig'' example_world) =
     Inr \<lparr>code_of = ''abc12345'', url_of = ''https://fiverr.com/gig'', isNew = False\<rparr>
   \<and> calls (events_since example_world (snd (createLink ''https://fiverr.com/gig'' example_world))) =
       [LinkFindUniqueByTargetUrl ''https://fiverr.com/gig'']
   \<and> fst (createLink ''https://fiverr.com/new'' example_world_fresh) =
     Inr \<lparr>code_of = ''new12345'', url_of = ''https://fiverr.com/new'', isNew = True\<rparr>
   \<and> fst (createLink ''https://fiverr.com/new'' (snd (createLink ''https://fiverr.com/new'' example_world_fresh))) =
     Inr \<lparr>code_of = ''new12345'', url_of = ''https://fiverr.com/new'', isNew = False\<rparr>
   \<and> distinct (map targetUrl (links (db (snd (createLink ''https://fiverr.com/new'' example_world_fresh)))))"
proof -
  have g: "failure_of (acts_at example_world 0) = None"
    "findLinkByTargetUrl (after_env example_world) ''https://fiverr.com/gig'' = Some (hd (links example_store))"
    "shortCode (hd (links example_store)) = ''abc12345''"
    by (simp_all add: example_world_def example_store_def acts_at_def after_env_def next_acts_def
          findLinkByTargetUrl_def)
  have d: "distinct (map targetUrl (links (db example_world_fresh)))"
    by (simp add: example_world_fresh_def example_world_def example_store_def)
  have ok: "failure_of (acts_at (snd (createLink ''https://fiverr.com/new'' example_world_fresh)) 0) = None"
    by (simp add: acts_at_def createLink_example_fresh(2))
  from createLink_dedup [of example_world "''https://fiverr.com/gig''" "hd (links example_store)"]
       createLink_dedup [of example_world_fresh "''https://fiverr.com/new''" _
         "\<lparr>code_of = ''new12345'', url_of = ''https://fiverr.com/new'', isNew = True\<rparr>"]
  show ?thesis
    using g d ok createLink_example_fresh(1) by simp
qed

section \<open>The redirect handler\<close>

text \<open>
  Claim C10. What the handler runs of \<^verbatim>\<open>recordClick\<close> and what it leaves behind are together
  \<^verbatim>\<open>recordClick\<close>. When \<^verbatim>\<open>resolve\<close> returns a target, the handler returns normally. The
  redirect to the target is sent before anything of \<^verbatim>\<open>recordClick\<close> is run: up to the
  redirect the handler has called no fraud validation and no click insert, and after it
  the handler only calls the lookup of \<^verbatim>\<open>recordClick\<close>, whose answer it does not wait for
  (the one round trip made is that of \<^verbatim>\<open>resolve\<close>). Everything else of the recording is
  left behind as one task. That task, run in any world, settles normally, so no rejection
  is left unhandled, and adds no response event to the trace; when the recording fails,
  all it adds to the failed recording is one log line, an error logged by the controller;
  when the recording returns normally it adds nothing. When \<^verbatim>\<open>resolve\<close> fails, the
  handler fails with that error, sends no redirect and starts no recording.
\<close>

theorem redirect_detached_recording:
  "(\<forall>w'. recordClick_resumed code (recordClick_called code w') = recordClick code w')
   \<and> (\<forall>target. fst (resolve code (logger ''LinksController'' LOG (''Redirecting shortCode='' @ code) w)) = Inr target \<longrightarrow>
         fst (redirect code w) = Inr ()
       \<and> (\<exists>es. trace (fst (snd (redirect code w))) =
                  trace w @ es @ [ResRedirect HttpStatus_FOUND target, LinkFindUniqueByShortCode code]
               \<and> filter is_recording es = [] \<and> filter is_ResRedirect es = [])
       \<and> env (fst (snd (redirect code w))) = tl (env w)
       \<and> snd (snd (redirect code w)) = [recordClick_detached code]
       \<and> fst (snd (serve_redirect code w)) = []
       \<and> (\<exists>es'. trace (snd (snd (serve_redirect code w))) = trace (fst (snd (redirect code w))) @ es'
               \<and> filter is_ResRedirect es' = []))
   \<and> (\<forall>err. fst (resolve code (logger ''LinksController'' LOG (''Redirecting shortCode='' @ code) w)) = Inl err \<longrightarrow>
         fst (redirect code w) = Inl err \<and> snd (snd (redirect code w)) = []
       \<and> filter is_ResRedirect (events_since w (snd (snd (serve_redirect code w)))) = []
       \<and> filter is_recording (events_since w (snd (snd (serve_redirect code w)))) = [])
   \<and> (\<forall>w'. \<exists>es. trace (snd (recordClick_resumed code w')) = trace w' @ es
         \<and> filter is_ResRedirect es = []
         \<and> fst (recordClick_detached code w') = Inr ()
         \<and> (\<forall>err. fst (recordClick_resumed code w') = Inl err \<longrightarrow>
               snd (recordClick_detached code w') =
                 logger ''LinksController'' ERROR (''Failed to record click for '' @ code)
                   (snd (recordClick_resumed code w'))
             \<and> trace (snd (recordClick_detached code w')) =
                 trace w' @ es @ [Logged ''LinksController'' ERROR (''Failed to record click for '' @ code)])
         \<and> (fst (recordClick_resumed code w') = Inr () \<longrightarrow>
               snd (recordClick_detached code w') = snd (recordClick_resumed code w')))"
proof -
  define w0 where "w0 = logger ''LinksController'' LOG (''Redirecting shortCode='' @ code) w"
  have red: "redirect code w =
       (case fst (resolve code w0) of
          Inl err \<Rightarrow> (Inl err, snd (resolve code w0), [])
        | Inr target \<Rightarrow>
            (Inr (),
             recordClick_called code (emit (ResRedirect HttpStatus_FOUND target) (snd (resolve code w0))),
             [recordClick_detached code]))"
    unfolding redirect_def Let_def case_prod_beta w0_def [symmetric] by (rule refl)
  obtain es0 where es0: "trace (snd (resolve code w0)) = trace w0 @ es0"
    "filter is_recording es0 = []" "filter is_ResRedirect es0 = []"
    using resolve_trace [of code w0] by blast
  have t0: "trace w0 = trace w @ [Logged ''LinksController'' LOG (''Redirecting shortCode='' @ code)]"
    by (simp add: w0_def)
  have A: "recordClick_resumed code (recordClick_called code w') = recordClick code w'" for w'
    by (rule recordClick_split)
  have B: "fst (redirect code w) = Inr ()
       \<and> (\<exists>es. trace (fst (snd (redirect code w))) =
                  trace w @ es @ [ResRedirect HttpStatus_FOUND target, LinkFindUniqueByShortCode code]
               \<and> filter is_recording es = [] \<and> filter is_ResRedirect es = [])
       \<and> env (fst (snd (redirect code w))) = tl (env w)
       \<and> snd (snd (redirect code w)) = [recordClick_detached code]
       \<and> fst (snd (serve_redirect code w)) = []
       \<and> (\<exists>es'. trace (snd (snd (serve_redirect code w))) = trace (fst (snd (redirect code w))) @ es'
               \<and> filter is_ResRedirect es' = [])"
    if r0: "fst (resolve code w0) = Inr target" for target
  proof -
    define w1 where
      "w1 = recordClick_called code (emit (ResRedirect HttpStatus_FOUND target) (snd (resolve code w0)))"
    have red': "redirect code w = (Inr (), w1, [recordClick_detached code])"
      by (simp add: red r0 w1_def)
    have 1: "fst (redirect code w) = Inr ()" by (simp add: red')
    have "trace w1 =
            trace w @ (Logged ''LinksController'' LOG (''Redirecting shortCode='' @ code) # es0) @
              [ResRedirect HttpStatus_FOUND target, LinkFindUniqueByShortCode code]"
      by (simp add: w1_def recordClick_called_def es0 t0)
    moreover have "filter is_recording (Logged ''LinksController'' LOG (''Redirecting shortCode='' @ code) # es0) = []"
      "filter is_ResRedirect (Logged ''LinksController'' LOG (''Redirecting shortCode='' @ code) # es0) = []"
      using es0 by simp_all
    ultimately have 2: "\<exists>es. trace (fst (snd (redirect code w))) =
                  trace w @ es @ [ResRedirect HttpStatus_FOUND target, LinkFindUniqueByShortCode code]
               \<and> filter is_recording es = [] \<and> filter is_ResRedirect es = []"
      unfolding red' by (metis fst_conv snd_conv)
    have 3: "env (fst (snd (redirect code w))) = tl (env w)"
      by (simp add: red' w1_def recordClick_called_def resolve_settled w0_def)
    have 4: "snd (snd (redirect code w)) = [recordClick_detached code]" by (simp add: red')
    obtain es where es: "trace (snd (recordClick_resumed code w1)) = trace w1 @ es"
      "filter is_ResRedirect es = []"
      using recordClick_resumed_trace [of code w1] by blast
    have s: "serve_redirect code w =
               (Inr (), [], snd (recordClick_detached code w1))"
      by (simp add: serve_redirect_def red' case_prod_beta recordClick_detached_settles)
    have 5: "fst (snd (serve_redirect code w)) = []" by (simp add: s)
    have "\<exists>es'. trace (snd (snd (serve_redirect code w))) = trace w1 @ es' \<and> filter is_ResRedirect es' = []"
      using es by (cases "fst (recordClick_resumed code w1)") (simp_all add: s recordClick_detached_eq)
    then have 6: "\<exists>es'. trace (snd (snd (serve_redirect code w))) = trace (fst (snd (redirect code w))) @ es'
               \<and> filter is_ResRedirect es' = []"
      by (simp add: red')
    from 1 2 3 4 5 6 show ?thesis by blast
  qed
  have C: "fst (redirect code w) = Inl err \<and> snd (snd (redirect code w)) = []
       \<and> filter is_ResRedirect (events_since w (snd (snd (serve_redirect code w)))) = []
       \<and> filter is_recording (events_since w (snd (snd (serve_redirect code w)))) = []"
    if r0: "fst (resolve code w0) = Inl err" for err
  proof -
    have red': "redirect code w = (Inl err, snd (resolve code w0), [])"
      by (simp add: red r0)
    have s: "serve_redirect code w = (Inl err, [], snd (resolve code w0))"
      by (simp add: serve_redirect_def red')
    show ?thesis
      using es0 by (simp add: red' s t0 events_since_def)
  qed
  have D: "\<exists>es. trace (snd (recordClick_resumed code w')) = trace w' @ es
         \<and> filter is_ResRedirect es = []
         \<and> fst (recordClick_detached code w') = Inr ()
         \<and> (\<forall>err. fst (recordClick_resumed code w') = Inl err \<longrightarrow>
               snd (recordClick_detached code w') =
                 logger ''LinksController'' ERROR (''Failed to record click for '' @ code)
                   (snd (recordClick_resumed code w'))
             \<and> trace (snd (recordClick_detached code w')) =
                 trace w' @ es @ [Logged ''LinksController'' ERROR (''Failed to record click for '' @ code)])
         \<and> (fst (recordClick_resumed code w') = Inr () \<longrightarrow>
               snd (recordClick_detached code w') = snd (recordClick_resumed code w'))" for w'
  proof -
    obtain es where es: "trace (snd (recordClick_resumed code w')) = trace w' @ es"
      "filter is_ResRedirect es = []"
      using recordClick_resumed_trace [of code w'] by blast
    have "\<forall>err. fst (recordClick_resumed code w') = Inl err \<longrightarrow>
               snd (recordClick_detached code w') =
                 logger ''LinksController'' ERROR (''Failed to record click for '' @ code)
                   (snd (recordClick_resumed code w'))
             \<and> trace (snd (recordClick_detached code w')) =
                 trace w' @ es @ [Logged ''LinksController'' ERROR (''Failed to record click for '' @ code)]"
      using es by (simp add: recordClick_detached_eq)
    moreover have "fst (recordClick_resumed code w') = Inr () \<longrightarrow>
               snd (recordClick_detached code w') = snd (recordClick_resumed code w')"
      by (simp add: recordClick_detached_eq)
    ultimately show ?thesis using es recordClick_detached_settles [of code w'] by blast
  qed
  show ?thesis
    unfolding w0_def [symmetric] using A B C D by blast
qed

theorem redirect_detached_recording_witness:
  "fst (resolve ''abc12345''
      (logger ''LinksController'' LOG ''Redirecting shortCode=abc12345'' example_world_failing)) =
     Inr ''https://fiverr.com/gig''
   \<and> fst (recordClick_resumed ''abc12345'' (fst (snd (redirect ''abc12345'' example_world_failing)))) =
     Inl (OtherFailure ''connection lost'')
   \<and> fst (redirect ''abc12345'' example_world_failing) = Inr ()
   \<and> trace (fst (snd (redirect ''abc12345'' example_world_failing))) =
     [Logged ''LinksController'' LOG ''Redirecting shortCode=abc12345'',
      LinkFindUniqueByShortCode ''abc12345'',
      Logged ''LinksService'' LOG ''Resolved abc12345 -> https://fiverr.com/gig'',
      ResRedirect 302 ''https://fiverr.com/gig'',
      LinkFindUniqueByShortCode ''abc12345'']
   \<and> fst (snd (serve_redirect ''abc12345'' example_world_failing)) = []
   \<and> filter is_ResRedirect (trace (snd (snd (serve_redirect ''abc12345'' example_world_failing)))) =
       [ResRedirect 302 ''https://fiverr.com/gig'']
   \<and> last (trace (snd (snd (serve_redirect ''abc12345'' example_world_failing)))) =
       Logged ''LinksController'' ERROR ''Failed to record click for abc12345''
   \<and> clicks (db (snd (snd (serve_redirect ''abc12345'' example_world_failing)))) = []"
proof -
  from redirect_detached_recording [of "''abc12345''" example_world_failing]
  have "fst (redirect ''abc12345'' example_world_failing) = Inr ()"
    "fst (snd (serve_redirect ''abc12345'' example_world_failing)) = []"
    using serve_redirect_failing(5) by simp_all
  then show ?thesis
    by (simp add: serve_redirect_failing)
qed

end
